theory Spec2Isabelle
  imports Complex_Main
begin

section \<open>Python values\<close>

text \<open>
  A Python \<open>str\<close> is a sequence of Unicode code points: \<open>len\<close>, slicing and the
  \<open>re\<close> module all count code points. A character is therefore a natural number
  and \<open>py ''abc''\<close> is the string of the code points of an ASCII literal.
\<close>

type_synonym pychar = nat
type_synonym pystr = "pychar list"

abbreviation py :: "string \<Rightarrow> pystr" where
  "py s \<equiv> map of_char s"

text \<open>The newline character, the only one that \<open>.\<close> does not match.\<close>

definition newline :: pychar where
  "newline = 10"

text \<open>
  An exception is kept as the text \<open>str(e)\<close> that an f-string prints. Only subclasses of
  \<open>Exception\<close> are modelled: they are what the library calls of the script raise.
\<close>

datatype exn = Exn pystr

fun message :: "exn \<Rightarrow> pystr" where
  "message (Exn m) = m"

text \<open>
  What \<open>json.loads\<close> returns: a \<open>str\<close>, a \<open>dict\<close> (its items), or any other
  object (\<open>None\<close>, a number, a boolean, a list).
\<close>

datatype pyval = PStr pystr | PDict "(pystr \<times> pyval) list" | POther

text \<open>\<open>data[key]\<close> for a string key.\<close>

fun getitem :: "pyval \<Rightarrow> pystr \<Rightarrow> exn + pyval" where
  "getitem (PDict kvs) k =
     (case map_of kvs k of
        Some v \<Rightarrow> Inr v
      | None \<Rightarrow> Inl (Exn (py [CHR 0x27] @ k @ py [CHR 0x27])))"
| "getitem (PStr s) k = Inl (Exn (py ''string indices must be integers''))"
| "getitem POther k = Inl (Exn (py ''object is not subscriptable''))"

section \<open>The process and its environment\<close>

record request =
  http_method :: pystr
  url :: pystr
  headers :: "(pystr \<times> pystr) list"
  data :: "pystr option"

record response =
  status :: nat
  read :: "exn + pystr"

record snippet =
  text_of :: pystr
  start :: real
  duration :: real

datatype transcript =
  Transcript (translate: "pystr \<Rightarrow> exn + transcript") (fetch: "exn + snippet list")

record transcript_list =
  find_manually_created_transcript :: "pystr list \<Rightarrow> exn + transcript"
  find_generated_transcript :: "pystr list \<Rightarrow> exn + transcript"
  tracks :: "transcript list"

datatype block = TextBlock pystr | OtherBlock

text \<open>
  Everything the script observes outside itself, one field per library call. Each call
  either raises (\<open>Inl\<close>) or returns (\<open>Inr\<close>). The script makes each call at most once
  in a run, so a function of the call's arguments is enough.
\<close>

record world =
  environ :: "pystr \<rightharpoonup> pystr"
  urlopen :: "request \<Rightarrow> exn + response"
  json_loads :: "pystr \<Rightarrow> exn + pyval"
  new_transcript_api :: "exn + unit"
  yt_list :: "pystr \<Rightarrow> exn + transcript_list"
  new_anthropic :: "exn + unit"
  messages_create :: "pystr \<Rightarrow> nat \<Rightarrow> pystr \<Rightarrow> exn + block list"
  int_of_str :: "pystr \<Rightarrow> exn + int"
  str_of_int :: "int \<Rightarrow> pystr"
  str_of_val :: "pyval \<Rightarrow> pystr"
  quote :: "pystr \<Rightarrow> exn + pystr"
  encode_utf8 :: "pystr \<Rightarrow> exn + pystr"

text \<open>
  What a run does, in order: lines printed on the two streams (without the newline that
  \<open>print\<close> appends) and calls made to the outside.
\<close>

datatype event =
    Stdout pystr
  | Stderr pystr
  | UrlOpen request
  | ListTranscripts pystr
  | FindManuallyCreated "pystr list"
  | FindGenerated "pystr list"
  | NextTrack
  | Translate pystr
  | Fetch
  | MessagesCreate pystr nat pystr

text \<open>
  How a function ends: it returns, it calls \<open>sys.exit\<close>, or an exception leaves it
  uncaught (at top level: a traceback and exit status 1).
\<close>

datatype 'a result = Return 'a | SysExit int | Uncaught exn

type_synonym 'a proc = "event list \<times> 'a result"

fun exit_status :: "'a result \<Rightarrow> int" where
  "exit_status (Return x) = 0"
| "exit_status (SysExit n) = n"
| "exit_status (Uncaught e) = 1"

fun and_then :: "'a proc \<Rightarrow> ('a \<Rightarrow> 'b proc) \<Rightarrow> 'b proc" where
  "and_then (evs, Return x) f = (evs @ fst (f x), snd (f x))"
| "and_then (evs, SysExit n) f = (evs, SysExit n)"
| "and_then (evs, Uncaught e) f = (evs, Uncaught e)"

section \<open>Regular expressions\<close>

text \<open>
  The patterns of the script use literal characters, one \<open>.*\<close> and the capturing
  group \<open>([a-zA-Z0-9_-]{n})\<close>; a non-capturing group \<open>(?:...)\<close> only brackets.
\<close>

datatype tok = Lit pychar | DotStar | Group nat

definition id_char :: "pychar \<Rightarrow> bool" where
  "id_char c \<longleftrightarrow>
     (of_char CHR ''a'' \<le> c \<and> c \<le> of_char CHR ''z'') \<or>
     (of_char CHR ''A'' \<le> c \<and> c \<le> of_char CHR ''Z'') \<or>
     (of_char CHR ''0'' \<le> c \<and> c \<le> of_char CHR ''9'') \<or>
     c = of_char CHR ''_'' \<or> c = of_char CHR ''-''"

text \<open>
  The backtracking matcher of \<open>re\<close>, at one start position. It returns the captured
  groups of the first match in priority order: \<open>.*\<close> is greedy, so it takes as many
  characters as it can and gives them back one at a time. With \<open>full\<close> the match must
  end at the end of the string (\<open>re.fullmatch\<close>).
\<close>

fun match_here :: "bool \<Rightarrow> tok list \<Rightarrow> pystr \<Rightarrow> pystr list option" where
  "match_here full [] s = (if full \<and> s \<noteq> [] then None else Some [])"
| "match_here full (Lit c # ts) s =
     (case s of
        [] \<Rightarrow> None
      | x # xs \<Rightarrow> if x = c then match_here full ts xs else None)"
| "match_here full (Group n # ts) s =
     (if n \<le> length s \<and> list_all id_char (take n s)
      then map_option ((#) (take n s)) (match_here full ts (drop n s))
      else None)"
| "match_here full (DotStar # ts) s =
     (case s of
        [] \<Rightarrow> match_here full ts []
      | x # xs \<Rightarrow>
          if x \<noteq> newline
          then (case match_here full (DotStar # ts) xs of
                  Some gs \<Rightarrow> Some gs
                | None \<Rightarrow> match_here full ts s)
          else match_here full ts s)"

text \<open>\<open>re.search\<close>: the first start position, from the left, where the pattern matches.\<close>

fun search_re :: "tok list \<Rightarrow> pystr \<Rightarrow> pystr list option" where
  "search_re ts s =
     (case match_here False ts s of
        Some gs \<Rightarrow> Some gs
      | None \<Rightarrow> (case s of [] \<Rightarrow> None | x # xs \<Rightarrow> search_re ts xs))"

declare search_re.simps [simp del]

definition fullmatch_re :: "tok list \<Rightarrow> pystr \<Rightarrow> pystr list option" where
  "fullmatch_re ts s = match_here True ts s"

text \<open>
  The meaning of a pattern, for comparison with the matcher: \<open>denotes ts w gs\<close> says
  that the string \<open>w\<close> as a whole matches \<open>ts\<close> with captured groups \<open>gs\<close>.
\<close>

inductive denotes :: "tok list \<Rightarrow> pystr \<Rightarrow> pystr list \<Rightarrow> bool" where
  Empty: "denotes [] [] []"
| Char: "denotes ts w gs \<Longrightarrow> denotes (Lit c # ts) (c # w) gs"
| Any: "denotes ts w gs \<Longrightarrow> newline \<notin> set d \<Longrightarrow> denotes (DotStar # ts) (d @ w) gs"
| Capture: "denotes ts w gs \<Longrightarrow> length g = n \<Longrightarrow> list_all id_char g \<Longrightarrow>
     denotes (Group n # ts) (g @ w) (g # gs)"

text \<open>A pattern occurs in a string when some substring of the string matches it.\<close>

definition occurs :: "tok list \<Rightarrow> pystr \<Rightarrow> bool" where
  "occurs ts s \<longleftrightarrow> (\<exists>pre w post gs. s = pre @ w @ post \<and> denotes ts w gs)"

text \<open>The lengths of the capturing groups of a pattern, in order.\<close>

fun group_sizes :: "tok list \<Rightarrow> nat list" where
  "group_sizes [] = []"
| "group_sizes (Group n # ts) = n # group_sizes ts"
| "group_sizes (Lit c # ts) = group_sizes ts"
| "group_sizes (DotStar # ts) = group_sizes ts"

text \<open>The number of characters that a pattern without \<open>.*\<close> matches.\<close>

fun width :: "tok list \<Rightarrow> nat" where
  "width [] = 0"
| "width (Lit c # ts) = Suc (width ts)"
| "width (Group n # ts) = n + width ts"
| "width (DotStar # ts) = width ts"

section \<open>Identifier Resolver\<close>

definition patterns :: "tok list list" where
  "patterns =
     [map Lit (py ''youtu.be/'') @ [Group 11],
      map Lit (py ''youtube.com/watch?'') @ [DotStar] @ map Lit (py ''v='') @ [Group 11],
      map Lit (py ''youtube.com/embed/'') @ [Group 11],
      map Lit (py ''youtube.com/v/'') @ [Group 11],
      map Lit (py ''youtube.com/shorts/'') @ [Group 11]]"

text \<open>The loop over the patterns: the first pattern that is found anywhere decides.\<close>

fun first_match :: "tok list list \<Rightarrow> pystr \<Rightarrow> pystr list option" where
  "first_match [] s = None"
| "first_match (p # ps) s =
     (case search_re p s of
        Some gs \<Rightarrow> Some gs
      | None \<Rightarrow> first_match ps s)"

text \<open>\<open>match.group(1)\<close>.\<close>

fun group1 :: "pystr list \<Rightarrow> pystr result" where
  "group1 [] = Uncaught (Exn (py ''no such group''))"
| "group1 (g # gs) = Return g"

definition extract_video_id :: "pystr \<Rightarrow> pystr proc" where
  "extract_video_id u =
     (case first_match patterns u of
        Some gs \<Rightarrow> ([], group1 gs)
      | None \<Rightarrow>
          (case fullmatch_re [Group 11] u of
             Some gs \<Rightarrow> ([], Return u)
           | None \<Rightarrow>
               ([Stderr (py ''Error: Could not extract video ID from: '' @ u)], SysExit 1)))"

text \<open>An 11-character identifier over the alphabet of the patterns.\<close>

definition is_video_id :: "pystr \<Rightarrow> bool" where
  "is_video_id v \<longleftrightarrow> length v = 11 \<and> list_all id_char v"

section \<open>Metadata Fetcher\<close>

definition get_request :: "pystr \<Rightarrow> request" where
  "get_request u = \<lparr>http_method = py ''GET'', url = u, headers = [], data = None\<rparr>"

definition oembed_url :: "pystr \<Rightarrow> pystr" where
  "oembed_url video_id =
     py ''https://www.youtube.com/oembed?url=https://www.youtube.com/watch?v='' @ video_id @
     py ''&format=json''"

text \<open>
  The body of the \<open>try\<close> block: open the URL, read the response, parse it, take the
  \<open>title\<close> item. The first step that raises ends it.
\<close>

definition oembed_title :: "world \<Rightarrow> pystr \<Rightarrow> exn + pyval" where
  "oembed_title w video_id =
     (case urlopen w (get_request (oembed_url video_id)) of
        Inl e \<Rightarrow> Inl e
      | Inr resp \<Rightarrow>
          (case read resp of
             Inl e \<Rightarrow> Inl e
           | Inr body \<Rightarrow>
               (case json_loads w body of
                  Inl e \<Rightarrow> Inl e
                | Inr d \<Rightarrow> getitem d (py ''title''))))"

text \<open>\<open>except Exception: return video_id\<close>.\<close>

definition fetch_video_title :: "world \<Rightarrow> pystr \<Rightarrow> pyval proc" where
  "fetch_video_title w video_id =
     ([UrlOpen (get_request (oembed_url video_id))],
      (case oembed_title w video_id of
         Inl e \<Rightarrow> Return (PStr video_id)
       | Inr t \<Rightarrow> Return t))"

section \<open>Transcript Fetcher\<close>

text \<open>
  The nested \<open>try\<close> blocks that choose a track. An exception of the last resort is not
  caught here: it reaches the outer handler of \<open>fetch_transcript\<close>.
\<close>

definition select_transcript :: "transcript_list \<Rightarrow> event list \<times> (exn + transcript)" where
  "select_transcript tlist =
     (case find_manually_created_transcript tlist [py ''en''] of
        Inr t \<Rightarrow> ([FindManuallyCreated [py ''en'']], Inr t)
      | Inl e1 \<Rightarrow>
          (case find_generated_transcript tlist [py ''en''] of
             Inr t \<Rightarrow> ([FindManuallyCreated [py ''en''], FindGenerated [py ''en'']], Inr t)
           | Inl e2 \<Rightarrow>
               (case tracks tlist of
                  [] \<Rightarrow>
                    ([FindManuallyCreated [py ''en''], FindGenerated [py ''en''], NextTrack],
                     Inl (Exn []))
                | t # rest \<Rightarrow>
                    ([FindManuallyCreated [py ''en''], FindGenerated [py ''en''], NextTrack,
                      Translate (py ''en'')],
                     translate t (py ''en'')))))"

text \<open>\<open>sep.join(parts)\<close>.\<close>

fun join :: "pystr \<Rightarrow> pystr list \<Rightarrow> pystr" where
  "join sep [] = []"
| "join sep [x] = x"
| "join sep (x # y # ys) = x @ sep @ join sep (y # ys)"

text \<open>The outer handler: print the exception and leave with status 1.\<close>

definition transcript_error :: "event list \<Rightarrow> exn \<Rightarrow> pystr proc" where
  "transcript_error evs e =
     (evs @ [Stderr (py ''Error fetching transcript: '' @ message e)], SysExit 1)"

definition fetch_transcript :: "world \<Rightarrow> pystr \<Rightarrow> pystr proc" where
  "fetch_transcript w video_id =
     (case new_transcript_api w of
        Inl e \<Rightarrow> transcript_error [] e
      | Inr ytt \<Rightarrow>
          (case yt_list w video_id of
             Inl e \<Rightarrow> transcript_error [ListTranscripts video_id] e
           | Inr tlist \<Rightarrow>
               (case select_transcript tlist of
                  (evs, Inl e) \<Rightarrow> transcript_error (ListTranscripts video_id # evs) e
                | (evs, Inr t) \<Rightarrow>
                    (case fetch t of
                       Inl e \<Rightarrow> transcript_error (ListTranscripts video_id # evs @ [Fetch]) e
                     | Inr entries \<Rightarrow>
                         (ListTranscripts video_id # evs @ [Fetch],
                          Return (join (py '' '') (map text_of entries)))))))"

section \<open>Summarizer\<close>

definition max_chars :: nat where
  "max_chars = 100000"

text \<open>The cut of a long transcript, before the request is built.\<close>

definition truncate_transcript :: "pystr \<Rightarrow> pystr" where
  "truncate_transcript t =
     (if length t > max_chars
      then take max_chars t @ [newline] @ py ''[transcript truncated]''
      else t)"

definition prompt :: "pystr \<Rightarrow> pystr" where
  "prompt t =
     py ''Below is a transcript of a YouTube video. '' @
     py ''Please provide a structured summary with:'' @ [newline] @
     py ''1. A one-line TLDR'' @ [newline] @
     py ''2. Key points (bulleted)'' @ [newline] @
     py ''3. A brief conclusion'' @ [newline, newline] @
     py ''Keep the summary concise and readable.'' @ [newline, newline] @
     py ''TRANSCRIPT:'' @ [newline] @ t"

definition model_name :: pystr where
  "model_name = py ''claude-sonnet-4-20250514''"

text \<open>\<open>message.content[0].text\<close>.\<close>

fun first_text :: "block list \<Rightarrow> pystr result" where
  "first_text [] = Uncaught (Exn (py ''list index out of range''))"
| "first_text (TextBlock t # bs) = Return t"
| "first_text (OtherBlock # bs) = Uncaught (Exn (py ''object has no attribute text''))"

text \<open>
  No exception is caught in \<open>summarize\<close>: one raised by the request leaves the function.
\<close>

definition summarize :: "world \<Rightarrow> pystr \<Rightarrow> pystr proc" where
  "summarize w transcript =
     (case new_anthropic w of
        Inl e \<Rightarrow> ([], Uncaught e)
      | Inr client \<Rightarrow>
          ([MessagesCreate model_name 1024 (prompt (truncate_transcript transcript))],
           (case messages_create w model_name 1024 (prompt (truncate_transcript transcript)) of
              Inl e \<Rightarrow> Uncaught e
            | Inr content \<Rightarrow> first_text content)))"

section \<open>Note Publisher\<close>

text \<open>The character class \<open>[\\/:*?"<>|]\<close> of the sanitizing substitution.\<close>

definition forbidden :: "pychar \<Rightarrow> bool" where
  "forbidden c \<longleftrightarrow>
     c \<in> set (py [CHR 0x5C, CHR ''/'', CHR '':'', CHR ''*'', CHR ''?'', CHR 0x22,
                  CHR ''<'', CHR ''>'', CHR ''|''])"

text \<open>
  \<open>re.sub\<close> for a pattern that is one character class: from left to right, each
  character of the class is replaced.
\<close>

fun re_sub_class :: "(pychar \<Rightarrow> bool) \<Rightarrow> pystr \<Rightarrow> pystr \<Rightarrow> pystr" where
  "re_sub_class cls repl [] = []"
| "re_sub_class cls repl (c # s) =
     (if cls c then repl @ re_sub_class cls repl s else c # re_sub_class cls repl s)"

text \<open>The characters that \<open>str.strip()\<close> removes: those for which \<open>str.isspace\<close> holds.\<close>

definition is_space :: "pychar \<Rightarrow> bool" where
  "is_space c \<longleftrightarrow>
     (0x09 \<le> c \<and> c \<le> 0x0D) \<or> (0x1C \<le> c \<and> c \<le> 0x20) \<or> c = 0x85 \<or> c = 0xA0 \<or>
     c = 0x1680 \<or> (0x2000 \<le> c \<and> c \<le> 0x200A) \<or> c = 0x2028 \<or> c = 0x2029 \<or>
     c = 0x202F \<or> c = 0x205F \<or> c = 0x3000"

definition strip :: "pystr \<Rightarrow> pystr" where
  "strip s = rev (dropWhile is_space (rev (dropWhile is_space s)))"

definition safe_title :: "pystr \<Rightarrow> pystr" where
  "safe_title title = strip (re_sub_class forbidden (py ''-'') title)"

definition note_path :: "pystr \<Rightarrow> pystr \<Rightarrow> pystr" where
  "note_path folder title = folder @ py ''/'' @ safe_title title @ py ''.md''"

definition note_content :: "pystr \<Rightarrow> pystr \<Rightarrow> pystr" where
  "note_content video_id summary =
     py ''---'' @ [newline] @
     py ''source: https://www.youtube.com/watch?v='' @ video_id @ [newline] @
     py ''type: youtube-summary'' @ [newline] @
     py ''---'' @ [newline, newline] @
     summary @ [newline]"

text \<open>\<open>os.environ.get(key, default)\<close>.\<close>

definition environ_get :: "world \<Rightarrow> pystr \<Rightarrow> pystr \<Rightarrow> pystr" where
  "environ_get w key dflt = (case environ w key of None \<Rightarrow> dflt | Some v \<Rightarrow> v)"

definition folder_of :: "world \<Rightarrow> pystr" where
  "folder_of w = environ_get w (py ''OBSIDIAN_SUMMARY_FOLDER'') (py ''transcripts/videos'')"

text \<open>
  The request of the upload, from the quoted path of the note and the encoded note.
\<close>

definition put_request :: "world \<Rightarrow> int \<Rightarrow> pystr \<Rightarrow> pystr \<Rightarrow> pystr \<Rightarrow> request" where
  "put_request w port quoted body api_key =
     \<lparr>http_method = py ''PUT'',
      url = py ''https://127.0.0.1:'' @ str_of_int w port @ py ''/vault/'' @ quoted,
      headers = [(py ''Authorization'', py ''Bearer '' @ api_key),
                 (py ''Content-Type'', py ''text/markdown'')],
      data = Some body\<rparr>"

text \<open>The \<open>try\<close> block around the upload.\<close>

definition upload :: "world \<Rightarrow> request \<Rightarrow> pystr \<Rightarrow> unit proc" where
  "upload w req path =
     (case urlopen w req of
        Inl e \<Rightarrow>
          ([UrlOpen req, Stderr (py ''Error sending to Obsidian: '' @ message e)], SysExit 1)
      | Inr resp \<Rightarrow>
          if status resp < 300
          then ([UrlOpen req, Stderr (py ''Saved to Obsidian: '' @ path)], Return ())
          else ([UrlOpen req], Return ()))"

definition missing_key :: "unit proc" where
  "missing_key =
     ([Stderr (py ''Error: OBSIDIAN_REST_API_KEY environment variable not set.'')], SysExit 1)"

text \<open>
  \<open>not api_key\<close> holds for a variable that is unset and for one that is empty. A port
  that \<open>int\<close> rejects, a title that is not a \<open>str\<close>, and text that \<open>quote\<close> or
  \<open>encode\<close> cannot turn into UTF-8 raise outside every handler.
\<close>

definition send_to_obsidian :: "world \<Rightarrow> pyval \<Rightarrow> pystr \<Rightarrow> pystr \<Rightarrow> unit proc" where
  "send_to_obsidian w title video_id summary =
     (case environ w (py ''OBSIDIAN_REST_API_KEY'') of
        None \<Rightarrow> missing_key
      | Some api_key \<Rightarrow>
          if api_key = [] then missing_key
          else
            (case int_of_str w (environ_get w (py ''OBSIDIAN_REST_PORT'') (py ''27124'')) of
               Inl e \<Rightarrow> ([], Uncaught e)
             | Inr port \<Rightarrow>
                 (case title of
                    PStr t \<Rightarrow>
                      (case quote w (note_path (folder_of w) t) of
                         Inl e \<Rightarrow> ([], Uncaught e)
                       | Inr quoted \<Rightarrow>
                           (case encode_utf8 w (note_content video_id summary) of
                              Inl e \<Rightarrow> ([], Uncaught e)
                            | Inr body \<Rightarrow>
                                upload w (put_request w port quoted body api_key)
                                  (note_path (folder_of w) t)))
                  | PDict kvs \<Rightarrow> ([], Uncaught (Exn (py ''expected string or bytes-like object'')))
                  | POther \<Rightarrow> ([], Uncaught (Exn (py ''expected string or bytes-like object''))))))"

section \<open>Orchestrator\<close>

definition print_err :: "pystr \<Rightarrow> unit proc" where
  "print_err line = ([Stderr line], Return ())"

definition print_out :: "pystr \<Rightarrow> unit proc" where
  "print_out line = ([Stdout line], Return ())"

text \<open>What an f-string shows for a value.\<close>

fun format_val :: "world \<Rightarrow> pyval \<Rightarrow> pystr" where
  "format_val w (PStr s) = s"
| "format_val w (PDict kvs) = str_of_val w (PDict kvs)"
| "format_val w POther = str_of_val w POther"

text \<open>The last stage: skipped with \<open>--no-obsidian\<close>.\<close>

definition publish :: "world \<Rightarrow> bool \<Rightarrow> pyval \<Rightarrow> pystr \<Rightarrow> pystr \<Rightarrow> unit proc" where
  "publish w no_obsidian title video_id summary =
     (if \<not> no_obsidian then send_to_obsidian w title video_id summary else ([], Return ()))"

text \<open>The stages of \<open>main\<close> that follow the metadata fetch.\<close>

definition after_title :: "world \<Rightarrow> bool \<Rightarrow> pystr \<Rightarrow> pyval \<Rightarrow> unit proc" where
  "after_title w no_obsidian video_id title =
     and_then (print_err (py ''Video title: '' @ format_val w title)) (\<lambda>_.
     and_then (fetch_transcript w video_id) (\<lambda>transcript.
     and_then (print_err (py ''Transcript fetched ('' @ str_of_int w (int (length transcript)) @
                 py '' chars). Summarizing ...'')) (\<lambda>_.
     and_then (summarize w transcript) (\<lambda>summary.
     and_then (print_out summary) (\<lambda>_.
     publish w no_obsidian title video_id summary)))))"

text \<open>
  \<open>main\<close>, after the command line is parsed into the positional argument and the flag.
\<close>

definition main :: "world \<Rightarrow> pystr \<Rightarrow> bool \<Rightarrow> unit proc" where
  "main w url_arg no_obsidian =
     and_then (extract_video_id url_arg) (\<lambda>video_id.
     and_then (print_err (py ''Fetching transcript for video: '' @ video_id @ py '' ...'')) (\<lambda>_.
     and_then (fetch_video_title w video_id) (\<lambda>title.
     after_title w no_obsidian video_id title)))"

section \<open>A sample environment\<close>

text \<open>
  Concrete environments on which the functions above can be evaluated: tracks with known
  entries, a document store that answers as told, and a completion service that
  answers with one text block. Its texts are ASCII letters, digits, spaces and
  punctuation that \<open>quote\<close> keeps, so quoting replaces the spaces and the UTF-8 encoding
  is the text itself.
\<close>

text \<open>The decimal digits of a number, most significant first.\<close>

function decimal :: "nat \<Rightarrow> pystr" where
  "decimal n =
     (if n < 10 then [of_char CHR ''0'' + n]
      else decimal (n div 10) @ [of_char CHR ''0'' + n mod 10])"
  by pat_completeness auto
termination
  by (relation "measure (\<lambda>n. n)") auto

declare decimal.simps [simp del]

definition sample_entries :: "snippet list" where
  "sample_entries =
     [\<lparr>text_of = py ''Hello'', start = 0, duration = 1.5\<rparr>,
      \<lparr>text_of = py ''world'', start = 1.5, duration = 2\<rparr>,
      \<lparr>text_of = py ''!'', start = 3.5, duration = 0.5\<rparr>]"

text \<open>A track that cannot be translated, and a track whose translation is given.\<close>

definition plain_track :: "snippet list \<Rightarrow> transcript" where
  "plain_track entries =
     Transcript (\<lambda>lang. Inl (Exn (py ''not translatable''))) (Inr entries)"

definition foreign_track :: "snippet list \<Rightarrow> snippet list \<Rightarrow> transcript" where
  "foreign_track entries english =
     Transcript
       (\<lambda>lang. if lang = py ''en'' then Inr (plain_track english)
               else Inl (Exn (py ''translation language not available'')))
       (Inr entries)"

definition one_entry :: "pystr \<Rightarrow> snippet list" where
  "one_entry t = [\<lparr>text_of = t, start = 0, duration = 1\<rparr>]"

text \<open>
  The tracks of a video: an optional manually created English track, an optional
  generated English track, and a German track that translates into English.
\<close>

definition sample_tracks :: "bool \<Rightarrow> bool \<Rightarrow> transcript_list" where
  "sample_tracks has_manual has_generated =
     \<lparr>find_manually_created_transcript =
        (\<lambda>langs. if has_manual \<and> py ''en'' \<in> set langs
                 then Inr (plain_track sample_entries)
                 else Inl (Exn (py ''no transcript found''))),
      find_generated_transcript =
        (\<lambda>langs. if has_generated \<and> py ''en'' \<in> set langs
                 then Inr (plain_track (one_entry (py ''generated'')))
                 else Inl (Exn (py ''no transcript found''))),
      tracks =
        foreign_track (one_entry (py ''Hallo'')) (one_entry (py ''translated'')) #
        (if has_manual then [plain_track sample_entries] else []) @
        (if has_generated then [plain_track (one_entry (py ''generated''))] else [])\<rparr>"

definition sample_title :: pystr where
  "sample_title = py ''My: Video? <Test>''"

text \<open>
  The environment: \<open>env\<close> is the process environment, \<open>meta\<close> what the metadata
  endpoint does, \<open>store\<close> what the document store does with the upload, \<open>tlist\<close>
  the tracks of every video.
\<close>

definition sample_world ::
  "(pystr \<rightharpoonup> pystr) \<Rightarrow> (exn + response) \<Rightarrow> (exn + response) \<Rightarrow> transcript_list \<Rightarrow> world" where
  "sample_world env meta store tlist =
     \<lparr>environ = env,
      urlopen = (\<lambda>req. if http_method req = py ''GET'' then meta else store),
      json_loads =
        (\<lambda>body. if body = py ''oembed'' then Inr (PDict [(py ''title'', PStr sample_title)])
                else Inl (Exn (py ''Expecting value''))),
      new_transcript_api = Inr (),
      yt_list = (\<lambda>video_id. Inr tlist),
      new_anthropic = Inr (),
      messages_create = (\<lambda>m n p. Inr [TextBlock (py ''TLDR: a greeting.'')]),
      int_of_str =
        (\<lambda>s. if s = py ''27124'' then Inr 27124
             else Inl (Exn (py ''invalid literal for int()''))),
      str_of_int = (\<lambda>i. if i < 0 then py ''-'' @ decimal (nat (- i)) else decimal (nat i)),
      str_of_val = (\<lambda>v. py ''None''),
      quote = (\<lambda>s. Inr (concat (map (\<lambda>c. if c = of_char CHR '' '' then py ''%20'' else [c]) s))),
      encode_utf8 = (\<lambda>s. Inr s)\<rparr>"

definition with_key :: "pystr \<rightharpoonup> pystr" where
  "with_key = [py ''OBSIDIAN_REST_API_KEY'' \<mapsto> py ''secret'']"

definition answer :: "nat \<Rightarrow> pystr \<Rightarrow> exn + response" where
  "answer st body = Inr \<lparr>status = st, read = Inr body\<rparr>"


section \<open>The matcher and the meaning of a pattern\<close>

lemma denotes_skip: "denotes ts w gs \<Longrightarrow> denotes (DotStar # ts) w gs"
  using denotes.Any[of ts w gs "[]"] by simp

lemma denotes_more:
  assumes "denotes (DotStar # ts) w gs" and "x \<noteq> newline"
  shows "denotes (DotStar # ts) (x # w) gs"
proof -
  from assms(1) obtain d w' where d: "w = d @ w'" "newline \<notin> set d" "denotes ts w' gs"
    by (auto elim: denotes.cases)
  have "denotes (DotStar # ts) ((x # d) @ w') gs"
    using d assms(2) by (intro denotes.Any) auto
  then show ?thesis using d by simp
qed

lemma match_here_sound:
  "match_here full ts s = Some gs \<Longrightarrow>
     \<exists>w r. s = w @ r \<and> denotes ts w gs \<and> (full \<longrightarrow> r = [])"
proof (induction full ts s arbitrary: gs rule: match_here.induct)
  case (1 full s)
  then show ?case by (auto split: if_splits intro: denotes.Empty)
next
  case (2 full c ts s)
  then obtain xs where s: "s = c # xs" and m: "match_here full ts xs = Some gs"
    by (auto split: list.splits if_splits)
  from "2.IH"[OF s refl m] obtain w r where "xs = w @ r" "denotes ts w gs" "full \<longrightarrow> r = []"
    by blast
  then have "s = (c # w) @ r \<and> denotes (Lit c # ts) (c # w) gs \<and> (full \<longrightarrow> r = [])"
    using s by (simp add: denotes.Char)
  then show ?case by blast
next
  case (3 full n ts s)
  then obtain gs' where c: "n \<le> length s" "list_all id_char (take n s)"
    and m: "match_here full ts (drop n s) = Some gs'" and gs: "gs = take n s # gs'"
    by (auto split: if_splits)
  from "3.IH"[OF _ m] c obtain w r where wr: "drop n s = w @ r" "denotes ts w gs'" "full \<longrightarrow> r = []"
    by blast
  have "s = (take n s @ w) @ r" using wr(1) by (metis append_take_drop_id append.assoc)
  moreover have "denotes (Group n # ts) (take n s @ w) gs"
    unfolding gs using wr(2) c by (intro denotes.Capture) auto
  ultimately show ?case using wr(3) by blast
next
  case (4 full ts s)
  have via_rest: "\<exists>w r. s = w @ r \<and> denotes (DotStar # ts) w gs \<and> (full \<longrightarrow> r = [])"
    if "\<exists>w r. s = w @ r \<and> denotes ts w gs \<and> (full \<longrightarrow> r = [])"
    using that denotes_skip by blast
  show ?case
  proof (cases s)
    case Nil
    with "4.prems" have "match_here full ts [] = Some gs" by simp
    from "4.IH"(1)[OF Nil this] Nil show ?thesis by (intro via_rest) simp
  next
    case (Cons x xs)
    show ?thesis
    proof (cases "x \<noteq> newline")
      case True
      show ?thesis
      proof (cases "match_here full (DotStar # ts) xs")
        case None
        with "4.prems" Cons True have "match_here full ts s = Some gs" by simp
        from "4.IH"(3)[OF Cons True None this] show ?thesis by (rule via_rest)
      next
        case (Some g)
        with "4.prems" Cons True have "match_here full (DotStar # ts) xs = Some gs" by simp
        from "4.IH"(2)[OF Cons True this] obtain w r
          where wr: "xs = w @ r" "denotes (DotStar # ts) w gs" "full \<longrightarrow> r = []" by blast
        have "s = (x # w) @ r \<and> denotes (DotStar # ts) (x # w) gs \<and> (full \<longrightarrow> r = [])"
          using wr Cons denotes_more[OF wr(2) True] by simp
        then show ?thesis by blast
      qed
    next
      case False
      with "4.prems" Cons have "match_here full ts s = Some gs" by simp
      from "4.IH"(4)[OF Cons False this] show ?thesis by (rule via_rest)
    qed
  qed
qed

lemma match_here_dotstar_complete:
  assumes "match_here full ts (w @ r) \<noteq> None" and "newline \<notin> set d"
  shows "match_here full (DotStar # ts) (d @ w @ r) \<noteq> None"
  using assms(2)
proof (induction d)
  case Nil
  show ?case using assms(1) by (cases "w @ r") (auto split: option.splits)
next
  case (Cons x d)
  then show ?case by (auto split: option.splits)
qed

lemma match_here_complete:
  "denotes ts w gs \<Longrightarrow> \<not> full \<or> r = [] \<Longrightarrow> match_here full ts (w @ r) \<noteq> None"
proof (induction rule: denotes.induct)
  case Empty
  then show ?case by auto
next
  case (Char ts w gs c)
  then show ?case by auto
next
  case (Any ts w gs d)
  then show ?case using match_here_dotstar_complete[of full ts w r d] by simp
next
  case (Capture ts w gs g n)
  then show ?case by auto
qed

lemma search_re_None:
  "search_re ts s = None \<longleftrightarrow> (\<forall>k\<le>length s. match_here False ts (drop k s) = None)"
proof (induction s)
  case Nil
  show ?case by (simp add: search_re.simps[of ts "[]"] split: option.splits)
next
  case (Cons x xs)
  have "(\<forall>k\<le>length (x # xs). match_here False ts (drop k (x # xs)) = None) \<longleftrightarrow>
        match_here False ts (x # xs) = None \<and> (\<forall>k\<le>length xs. match_here False ts (drop k xs) = None)"
    (is "?L \<longleftrightarrow> ?R")
  proof
    assume l: ?L
    have "match_here False ts (drop 0 (x # xs)) = None" using l by blast
    moreover have "match_here False ts (drop k xs) = None" if "k \<le> length xs" for k
      using l[rule_format, of "Suc k"] that by simp
    ultimately show ?R by simp
  next
    assume r: ?R
    show ?L
    proof (intro allI impI)
      fix k assume "k \<le> length (x # xs)"
      then show "match_here False ts (drop k (x # xs)) = None"
        using r by (cases k) auto
    qed
  qed
  with Cons show ?case by (simp add: search_re.simps[of ts "x # xs"] split: option.splits)
qed

lemma search_re_Some:
  "search_re ts s = Some gs \<longleftrightarrow>
     (\<exists>k\<le>length s. match_here False ts (drop k s) = Some gs \<and>
        (\<forall>j<k. match_here False ts (drop j s) = None))"
proof (induction s)
  case Nil
  show ?case by (auto simp: search_re.simps[of ts "[]"] split: option.splits)
next
  case (Cons x xs)
  show ?case
  proof (cases "match_here False ts (x # xs)")
    case (Some g)
    have "(\<exists>k\<le>length (x # xs). match_here False ts (drop k (x # xs)) = Some gs \<and>
        (\<forall>j<k. match_here False ts (drop j (x # xs)) = None)) \<longleftrightarrow> g = gs"
    proof
      assume "\<exists>k\<le>length (x # xs). match_here False ts (drop k (x # xs)) = Some gs \<and>
        (\<forall>j<k. match_here False ts (drop j (x # xs)) = None)"
      then obtain k where k: "match_here False ts (drop k (x # xs)) = Some gs"
        "\<forall>j<k. match_here False ts (drop j (x # xs)) = None" by blast
      have "k = 0"
      proof (rule ccontr)
        assume "k \<noteq> 0"
        then have "match_here False ts (drop 0 (x # xs)) = None" using k(2) by blast
        with Some show False by simp
      qed
      with k(1) Some show "g = gs" by simp
    next
      assume "g = gs"
      with Some have "match_here False ts (drop 0 (x # xs)) = Some gs \<and>
        (\<forall>j<0. match_here False ts (drop j (x # xs)) = None)" by simp
      then show "\<exists>k\<le>length (x # xs). match_here False ts (drop k (x # xs)) = Some gs \<and>
        (\<forall>j<k. match_here False ts (drop j (x # xs)) = None)" by blast
    qed
    with Some show ?thesis by (simp add: search_re.simps[of ts "x # xs"])
  next
    case None
    have "(\<exists>k\<le>length (x # xs). match_here False ts (drop k (x # xs)) = Some gs \<and>
        (\<forall>j<k. match_here False ts (drop j (x # xs)) = None)) \<longleftrightarrow>
        (\<exists>k\<le>length xs. match_here False ts (drop k xs) = Some gs \<and>
        (\<forall>j<k. match_here False ts (drop j xs) = None))" (is "?L \<longleftrightarrow> ?R")
    proof
      assume ?L
      then obtain k where k: "k \<le> length (x # xs)" "match_here False ts (drop k (x # xs)) = Some gs"
        "\<forall>j<k. match_here False ts (drop j (x # xs)) = None" by blast
      with None obtain k' where k': "k = Suc k'" by (cases k) auto
      have "match_here False ts (drop j xs) = None" if "j < k'" for j
        using k(3)[rule_format, of "Suc j"] that k' by simp
      with k k' show ?R by auto
    next
      assume ?R
      then obtain k where k: "k \<le> length xs" "match_here False ts (drop k xs) = Some gs"
        "\<forall>j<k. match_here False ts (drop j xs) = None" by blast
      have "match_here False ts (drop j (x # xs)) = None" if "j < Suc k" for j
        using that k(3) None by (cases j) auto
      with k have "Suc k \<le> length (x # xs) \<and> match_here False ts (drop (Suc k) (x # xs)) = Some gs \<and>
        (\<forall>j<Suc k. match_here False ts (drop j (x # xs)) = None)" by simp
      then show ?L by blast
    qed
    with None Cons show ?thesis by (simp add: search_re.simps[of ts "x # xs"])
  qed
qed

lemma search_re_occurs: "search_re ts s \<noteq> None \<longleftrightarrow> occurs ts s"
proof
  assume "search_re ts s \<noteq> None"
  then have "\<not> (\<forall>k\<le>length s. match_here False ts (drop k s) = None)"
    unfolding search_re_None .
  then obtain k gs where "match_here False ts (drop k s) = Some gs"
    by auto
  from match_here_sound[OF this] obtain w r where wr: "drop k s = w @ r" "denotes ts w gs"
    by blast
  have "take k s @ drop k s = s" by (rule append_take_drop_id)
  then have "s = take k s @ w @ r" unfolding wr(1) by (rule sym)
  then show "occurs ts s" unfolding occurs_def using wr(2) by (intro exI conjI)
next
  assume "occurs ts s"
  then obtain pre w post gs where s: "s = pre @ w @ post" and d: "denotes ts w gs"
    unfolding occurs_def by (elim exE conjE)
  have "match_here False ts (w @ post) \<noteq> None" using match_here_complete[OF d] by simp
  then have "match_here False ts (drop (length pre) s) \<noteq> None" unfolding s by simp
  moreover have "length pre \<le> length s" unfolding s by simp
  ultimately have "\<not> (\<forall>k\<le>length s. match_here False ts (drop k s) = None)"
    by (intro notI) (elim allE[of _ "length pre"], simp)
  then show "search_re ts s \<noteq> None" unfolding search_re_None .
qed

lemma first_match_None:
  "first_match ps s = None \<longleftrightarrow> (\<forall>p\<in>set ps. \<not> occurs p s)"
  by (induction ps) (auto simp: search_re_occurs[symmetric] split: option.splits)

lemma first_match_Some:
  "first_match ps s = Some gs \<longleftrightarrow>
     (\<exists>i<length ps. search_re (ps ! i) s = Some gs \<and> (\<forall>j<i. search_re (ps ! j) s = None))"
proof (induction ps)
  case Nil
  show ?case by simp
next
  case (Cons p ps)
  show ?case
  proof (cases "search_re p s")
    case (Some g)
    have "(\<exists>i<length (p # ps). search_re ((p # ps) ! i) s = Some gs \<and>
            (\<forall>j<i. search_re ((p # ps) ! j) s = None)) \<longleftrightarrow> g = gs"
    proof
      assume "\<exists>i<length (p # ps). search_re ((p # ps) ! i) s = Some gs \<and>
            (\<forall>j<i. search_re ((p # ps) ! j) s = None)"
      then obtain i where i: "search_re ((p # ps) ! i) s = Some gs"
        "\<forall>j<i. search_re ((p # ps) ! j) s = None" by blast
      have "i = 0"
      proof (rule ccontr)
        assume "i \<noteq> 0"
        then have "search_re ((p # ps) ! 0) s = None" using i(2) by blast
        with Some show False by simp
      qed
      with i(1) Some show "g = gs" by simp
    next
      assume "g = gs"
      with Some have "0 < length (p # ps) \<and> search_re ((p # ps) ! 0) s = Some gs \<and>
            (\<forall>j<0. search_re ((p # ps) ! j) s = None)" by simp
      then show "\<exists>i<length (p # ps). search_re ((p # ps) ! i) s = Some gs \<and>
            (\<forall>j<i. search_re ((p # ps) ! j) s = None)" by blast
    qed
    with Some show ?thesis by simp
  next
    case None
    have "(\<exists>i<length (p # ps). search_re ((p # ps) ! i) s = Some gs \<and>
            (\<forall>j<i. search_re ((p # ps) ! j) s = None)) \<longleftrightarrow>
          (\<exists>i<length ps. search_re (ps ! i) s = Some gs \<and> (\<forall>j<i. search_re (ps ! j) s = None))"
      (is "?L \<longleftrightarrow> ?R")
    proof
      assume ?L
      then obtain i where i: "i < length (p # ps)" "search_re ((p # ps) ! i) s = Some gs"
        "\<forall>j<i. search_re ((p # ps) ! j) s = None" by blast
      with None obtain i' where i': "i = Suc i'" by (cases i) auto
      have "search_re (ps ! j) s = None" if "j < i'" for j
        using i(3)[rule_format, of "Suc j"] that i' by simp
      with i i' show ?R by auto
    next
      assume ?R
      then obtain i where i: "i < length ps" "search_re (ps ! i) s = Some gs"
        "\<forall>j<i. search_re (ps ! j) s = None" by blast
      have "search_re ((p # ps) ! j) s = None" if "j < Suc i" for j
        using that i(3) None by (cases j) auto
      with i have "Suc i < length (p # ps) \<and> search_re ((p # ps) ! Suc i) s = Some gs \<and>
        (\<forall>j<Suc i. search_re ((p # ps) ! j) s = None)" by simp
      then show ?L by blast
    qed
    with None Cons show ?thesis by simp
  qed
qed

lemma denotes_groups:
  "denotes ts w gs \<Longrightarrow> map length gs = group_sizes ts \<and> list_all (list_all id_char) gs"
  by (induction rule: denotes.induct) auto

lemma group_sizes_patterns: "p \<in> set patterns \<Longrightarrow> group_sizes p = [11]"
  by (auto simp: patterns_def)

lemma patterns_capture:
  assumes "p \<in> set patterns" and "denotes p w gs"
  shows "\<exists>v. gs = [v] \<and> is_video_id v"
proof -
  from denotes_groups[OF assms(2)] group_sizes_patterns[OF assms(1)]
  have m: "map length gs = [11]" and a: "list_all (list_all id_char) gs" by simp_all
  from m obtain v where "gs = [v]" by (cases gs) auto
  with m a show ?thesis by (simp add: is_video_id_def)
qed

lemma fullmatch_bare: "fullmatch_re [Group 11] u \<noteq> None \<longleftrightarrow> is_video_id u"
proof -
  have "list_all id_char (take 11 u) = list_all id_char u" if "length u = 11"
    using that by simp
  then show ?thesis
    by (auto simp: fullmatch_re_def is_video_id_def)
qed

lemma search_re_denotes:
  assumes "search_re ts s = Some gs"
  shows "\<exists>pre w post. s = pre @ w @ post \<and> denotes ts w gs"
proof -
  from assms obtain k where "match_here False ts (drop k s) = Some gs"
    unfolding search_re_Some by blast
  from match_here_sound[OF this] obtain w r where wr: "drop k s = w @ r" "denotes ts w gs"
    by blast
  have "take k s @ drop k s = s" by (rule append_take_drop_id)
  then have "s = take k s @ w @ r" unfolding wr(1) by (rule sym)
  then show ?thesis using wr(2) by (intro exI conjI)
qed

lemma extract_found:
  assumes "first_match patterns u = Some gs"
  shows "\<exists>i v pre w post. i < length patterns \<and> (\<forall>j<i. \<not> occurs (patterns ! j) u) \<and>
           u = pre @ w @ post \<and> denotes (patterns ! i) w [v] \<and> is_video_id v \<and>
           extract_video_id u = ([], Return v)"
proof -
  from assms obtain i where i: "i < length patterns" "search_re (patterns ! i) u = Some gs"
    "\<forall>j<i. search_re (patterns ! j) u = None"
    unfolding first_match_Some by blast
  from search_re_denotes[OF i(2)] obtain pre w post
    where d: "u = pre @ w @ post" "denotes (patterns ! i) w gs" by blast
  from patterns_capture[OF _ d(2)] i(1) obtain v where v: "gs = [v]" "is_video_id v"
    by auto
  have "\<forall>j<i. \<not> occurs (patterns ! j) u"
    using i(3) search_re_occurs by blast
  moreover have "extract_video_id u = ([], Return v)"
    using assms v by (simp add: extract_video_id_def)
  ultimately show ?thesis using i(1) d v by blast
qed

lemma extract_not_found:
  assumes "first_match patterns u = None"
  shows "extract_video_id u =
     (if is_video_id u then ([], Return u)
      else ([Stderr (py ''Error: Could not extract video ID from: '' @ u)], SysExit 1))"
  using assms fullmatch_bare[of u]
  by (auto simp: extract_video_id_def split: option.splits)

section \<open>Identifier Resolver: the result\<close>

text \<open>
  Claim C1. For every input, \<open>extract_video_id\<close> returns an 11-character identifier
  exactly when one of the five URL patterns occurs in the input or the whole input is a
  bare identifier. In every other case it prints a diagnostic that names the input and
  exits with status 1. The patterns are tried in their order, and the group captured by
  the first one that occurs is returned; a bare identifier is returned as it is.
\<close>

theorem extract_video_id_spec:
  "((\<exists>v. extract_video_id u = ([], Return v) \<and> is_video_id v) \<longleftrightarrow>
      ((\<exists>p\<in>set patterns. occurs p u) \<or> is_video_id u)) \<and>
   (\<not> ((\<exists>p\<in>set patterns. occurs p u) \<or> is_video_id u) \<longrightarrow>
      extract_video_id u =
        ([Stderr (py ''Error: Could not extract video ID from: '' @ u)], SysExit 1)) \<and>
   (\<forall>i<length patterns.
      occurs (patterns ! i) u \<and> (\<forall>j<i. \<not> occurs (patterns ! j) u) \<longrightarrow>
      (\<exists>v pre w post. u = pre @ w @ post \<and> denotes (patterns ! i) w [v] \<and>
         extract_video_id u = ([], Return v))) \<and>
   ((\<forall>p\<in>set patterns. \<not> occurs p u) \<and> is_video_id u \<longrightarrow>
      extract_video_id u = ([], Return u))"
proof (cases "first_match patterns u")
  case None
  then have no: "\<forall>p\<in>set patterns. \<not> occurs p u"
    by (simp add: first_match_None)
  have ex: "extract_video_id u =
     (if is_video_id u then ([], Return u)
      else ([Stderr (py ''Error: Could not extract video ID from: '' @ u)], SysExit 1))"
    by (rule extract_not_found[OF None])
  have "\<not> occurs (patterns ! i) u" if "i < length patterns" for i
    using no that by simp
  with no ex show ?thesis by auto
next
  case (Some gs)
  from extract_found[OF Some] obtain i v pre w post
    where i: "i < length patterns" "\<forall>j<i. \<not> occurs (patterns ! j) u"
      and d: "u = pre @ w @ post" "denotes (patterns ! i) w [v]"
      and v: "is_video_id v" "extract_video_id u = ([], Return v)"
    by blast
  have occ: "occurs (patterns ! i) u"
    unfolding occurs_def using d by (intro exI conjI)
  then have some: "\<exists>p\<in>set patterns. occurs p u"
    using i(1) nth_mem by blast
  have third: "\<exists>v pre w post. u = pre @ w @ post \<and> denotes (patterns ! k) w [v] \<and>
         extract_video_id u = ([], Return v)"
    if k: "k < length patterns" "occurs (patterns ! k) u" "\<forall>j<k. \<not> occurs (patterns ! j) u" for k
  proof -
    have "\<not> k < i" using i(2) k(2) by blast
    moreover have "\<not> i < k" using k(3) occ by blast
    ultimately have "k = i" by simp
    then show ?thesis using d v(2) by (intro exI conjI) simp_all
  qed
  from v some third show ?thesis by auto
qed

lemma occurs_eval: "occurs ts s \<longleftrightarrow> search_re ts s \<noteq> None"
  by (rule search_re_occurs[symmetric])

theorem extract_video_id_spec_witness:
  "extract_video_id (py ''https://youtu.be/dQw4w9WgXcQ'') = ([], Return (py ''dQw4w9WgXcQ'')) \<and>
   ((\<exists>p\<in>set patterns. occurs p (py ''https://youtu.be/dQw4w9WgXcQ'')) \<or>
      is_video_id (py ''https://youtu.be/dQw4w9WgXcQ'')) \<and>
   \<not> ((\<exists>p\<in>set patterns. occurs p (py ''cats'')) \<or> is_video_id (py ''cats'')) \<and>
   extract_video_id (py ''cats'') =
     ([Stderr (py ''Error: Could not extract video ID from: cats'')], SysExit 1) \<and>
   is_video_id (py ''dQw4w9WgXcQ'') \<and>
   extract_video_id (py ''dQw4w9WgXcQ'') = ([], Return (py ''dQw4w9WgXcQ'')) \<and>
   (\<exists>v pre w post. py ''https://youtu.be/dQw4w9WgXcQ'' = pre @ w @ post \<and>
      denotes (patterns ! 0) w [v] \<and>
      extract_video_id (py ''https://youtu.be/dQw4w9WgXcQ'') = ([], Return v))"
proof -
  let ?u = "py ''https://youtu.be/dQw4w9WgXcQ''"
  have e1: "extract_video_id ?u = ([], Return (py ''dQw4w9WgXcQ''))"
    by (simp add: extract_video_id_def patterns_def search_re.simps id_char_def)
  have v1: "is_video_id (py ''dQw4w9WgXcQ'')"
    by (simp add: is_video_id_def id_char_def)
  from e1 v1 have "\<exists>v. extract_video_id ?u = ([], Return v) \<and> is_video_id v" by blast
  then have r1: "(\<exists>p\<in>set patterns. occurs p ?u) \<or> is_video_id ?u"
    using extract_video_id_spec[of ?u] by blast
  have e2: "extract_video_id (py ''cats'') =
     ([Stderr (py ''Error: Could not extract video ID from: cats'')], SysExit 1)"
    by (simp add: extract_video_id_def patterns_def search_re.simps id_char_def
          fullmatch_re_def)
  then have "\<not> (\<exists>v. extract_video_id (py ''cats'') = ([], Return v) \<and> is_video_id v)"
    by simp
  then have r2: "\<not> ((\<exists>p\<in>set patterns. occurs p (py ''cats'')) \<or> is_video_id (py ''cats''))"
    using extract_video_id_spec[of "py ''cats''"] by blast
  have no: "\<forall>p\<in>set patterns. \<not> occurs p (py ''dQw4w9WgXcQ'')"
    by (simp add: patterns_def occurs_eval search_re.simps)
  with v1 have e3: "extract_video_id (py ''dQw4w9WgXcQ'') = ([], Return (py ''dQw4w9WgXcQ''))"
    using extract_video_id_spec[of "py ''dQw4w9WgXcQ''"] by blast
  have o: "0 < length patterns \<and> occurs (patterns ! 0) ?u \<and> (\<forall>j<0. \<not> occurs (patterns ! j) ?u)"
    by (simp add: patterns_def occurs_eval search_re.simps id_char_def)
  have t: "\<exists>v pre w post. ?u = pre @ w @ post \<and> denotes (patterns ! 0) w [v] \<and>
      extract_video_id ?u = ([], Return v)"
    by (rule extract_video_id_spec[THEN conjunct2, THEN conjunct2, THEN conjunct1, rule_format,
          OF o[THEN conjunct1] o[THEN conjunct2]])
  from e1 r1 r2 e2 v1 e3 t show ?thesis by (intro conjI)
qed

section \<open>Summarizer: the cut\<close>

text \<open>
  Claim C2. A transcript of more than 100,000 characters is replaced by its first
  100,000 characters followed by a newline and \<open>[transcript truncated]\<close>; a
  transcript of at most 100,000 characters is left as it is. The completion request that
  \<open>summarize\<close> makes carries the prompt built from the result.
\<close>

theorem truncate_transcript_spec:
  "(length t > 100000 \<longrightarrow>
      truncate_transcript t = take 100000 t @ newline # py ''[transcript truncated]'') \<and>
   (length t \<le> 100000 \<longrightarrow> truncate_transcript t = t) \<and>
   (new_anthropic w = Inr () \<longrightarrow>
      fst (summarize w t) = [MessagesCreate model_name 1024 (prompt (truncate_transcript t))]) \<and>
   (\<forall>m n p. MessagesCreate m n p \<in> set (fst (summarize w t)) \<longrightarrow>
      p = prompt (truncate_transcript t)) \<and>
   prompt (truncate_transcript t) = prompt [] @ truncate_transcript t"
  by (cases "new_anthropic w")
     (simp_all add: truncate_transcript_def max_chars_def summarize_def prompt_def)

theorem truncate_transcript_spec_witness:
  "truncate_transcript (replicate 150000 (of_char CHR ''a'')) =
     replicate 100000 (of_char CHR ''a'') @ newline # py ''[transcript truncated]'' \<and>
   length (truncate_transcript (replicate 150000 (of_char CHR ''a''))) = 100023 \<and>
   truncate_transcript (py ''Hello world !'') = py ''Hello world !'' \<and>
   fst (summarize
     (sample_world with_key (answer 200 (py ''oembed'')) (answer 204 []) (sample_tracks True True))
     (replicate 150000 (of_char CHR ''a''))) =
     [MessagesCreate model_name 1024
        (prompt (replicate 100000 (of_char CHR ''a'') @ newline # py ''[transcript truncated]''))]"
proof -
  have "length (replicate 150000 (of_char CHR ''a'' :: pychar)) > 100000" by simp
  then have a: "truncate_transcript (replicate 150000 (of_char CHR ''a'')) =
     take 100000 (replicate 150000 (of_char CHR ''a'')) @ newline # py ''[transcript truncated]''"
    using truncate_transcript_spec[of "replicate 150000 (of_char CHR ''a'')"] by blast
  have "length (py ''Hello world !'') \<le> 100000" by simp
  then have b: "truncate_transcript (py ''Hello world !'') = py ''Hello world !''"
    using truncate_transcript_spec[of "py ''Hello world !''"] by blast
  let ?w = "sample_world with_key (answer 200 (py ''oembed'')) (answer 204 []) (sample_tracks True True)"
  have "new_anthropic ?w = Inr ()" by (simp add: sample_world_def)
  then have c: "fst (summarize ?w (replicate 150000 (of_char CHR ''a''))) =
     [MessagesCreate model_name 1024
        (prompt (truncate_transcript (replicate 150000 (of_char CHR ''a''))))]"
    using truncate_transcript_spec[of "replicate 150000 (of_char CHR ''a'')" ?w] by blast
  have a': "truncate_transcript (replicate 150000 (of_char CHR ''a'')) =
     replicate 100000 (of_char CHR ''a'') @ newline # py ''[transcript truncated]''"
    unfolding a by simp
  have l: "length (truncate_transcript (replicate 150000 (of_char CHR ''a''))) = 100023"
    unfolding a' by simp
  from a' l b c[unfolded a'] show ?thesis by (intro conjI)
qed

section \<open>Transcript Fetcher: the text\<close>

lemma join_concat: "join sep (x # xs) = x @ concat (map (\<lambda>y. sep @ y) xs)"
  by (induction xs arbitrary: x) auto

lemma fetch_transcript_Return:
  assumes "fetch_transcript w vid = (evs, Return r)"
  shows "\<exists>tlist t entries. yt_list w vid = Inr tlist \<and> snd (select_transcript tlist) = Inr t \<and>
           fetch t = Inr entries \<and> r = join (py '' '') (map text_of entries)"
proof (cases "yt_list w vid")
  case (Inl e)
  with assms show ?thesis
    by (cases "new_transcript_api w") (simp_all add: fetch_transcript_def transcript_error_def)
next
  case (Inr tlist)
  have api: "new_transcript_api w = Inr ()"
    using assms
    by (cases "new_transcript_api w") (simp_all add: fetch_transcript_def transcript_error_def)
  obtain es sel where sel: "select_transcript tlist = (es, sel)" by (cases "select_transcript tlist")
  show ?thesis
  proof (cases sel)
    case (Inl e)
    with assms Inr sel api show ?thesis by (simp add: fetch_transcript_def transcript_error_def)
  next
    case selr: (Inr t)
    show ?thesis
    proof (cases "fetch t")
      case (Inl e)
      with assms Inr sel selr api show ?thesis
        by (simp add: fetch_transcript_def transcript_error_def)
    next
      case fr: (Inr entries)
      with assms Inr sel selr api have "r = join (py '' '') (map text_of entries)"
        by (simp add: fetch_transcript_def)
      with Inr sel selr fr show ?thesis by simp
    qed
  qed
qed

text \<open>
  Claim C7. When the transcript is retrieved, \<open>fetch_transcript\<close> returns the texts of
  the entries of the selected track in their order, separated by single spaces; the
  timing of an entry does not enter the result. The entries \<open>Hello\<close>, \<open>world\<close>,
  \<open>!\<close> give \<open>Hello world !\<close>.
\<close>

theorem fetch_transcript_join:
  "(new_transcript_api w = Inr () \<and> yt_list w vid = Inr tlist \<and>
    select_transcript tlist = (evs, Inr t) \<and> fetch t = Inr entries \<longrightarrow>
      fetch_transcript w vid =
        (ListTranscripts vid # evs @ [Fetch], Return (join (py '' '') (map text_of entries)))) \<and>
   (fetch_transcript w vid = (evs', Return r) \<longrightarrow>
      (\<exists>tlist t entries. yt_list w vid = Inr tlist \<and> snd (select_transcript tlist) = Inr t \<and>
         fetch t = Inr entries \<and> r = join (py '' '') (map text_of entries))) \<and>
   join sep [] = [] \<and>
   join sep (x # xs) = x @ concat (map (\<lambda>y. sep @ y) xs) \<and>
   join (py '' '') [py ''Hello'', py ''world'', py ''!''] = py ''Hello world !''"
proof -
  have "fetch_transcript w vid =
        (ListTranscripts vid # evs @ [Fetch], Return (join (py '' '') (map text_of entries)))"
    if "new_transcript_api w = Inr ()" "yt_list w vid = Inr tlist"
      "select_transcript tlist = (evs, Inr t)" "fetch t = Inr entries"
    using that by (simp add: fetch_transcript_def)
  moreover have "\<exists>tlist t entries. yt_list w vid = Inr tlist \<and> snd (select_transcript tlist) = Inr t \<and>
         fetch t = Inr entries \<and> r = join (py '' '') (map text_of entries)"
    if "fetch_transcript w vid = (evs', Return r)"
    using that by (rule fetch_transcript_Return)
  moreover have "join (py '' '') [py ''Hello'', py ''world'', py ''!''] = py ''Hello world !''"
    by simp
  ultimately show ?thesis using join_concat[of sep x xs] by simp
qed

theorem fetch_transcript_join_witness:
  "fetch_transcript
     (sample_world with_key (answer 200 (py ''oembed'')) (answer 204 []) (sample_tracks True True))
     (py ''dQw4w9WgXcQ'') =
   ([ListTranscripts (py ''dQw4w9WgXcQ''), FindManuallyCreated [py ''en''], Fetch],
    Return (py ''Hello world !'')) \<and>
   (\<exists>tlist t entries.
      yt_list
        (sample_world with_key (answer 200 (py ''oembed'')) (answer 204 []) (sample_tracks True True))
        (py ''dQw4w9WgXcQ'') = Inr tlist \<and>
      snd (select_transcript tlist) = Inr t \<and> fetch t = Inr entries \<and>
      py ''Hello world !'' = join (py '' '') (map text_of entries))"
proof -
  let ?w = "sample_world with_key (answer 200 (py ''oembed'')) (answer 204 []) (sample_tracks True True)"
  have 0: "new_transcript_api ?w = Inr ()"
    by (simp add: sample_world_def)
  have 1: "yt_list ?w (py ''dQw4w9WgXcQ'') = Inr (sample_tracks True True)"
    by (simp add: sample_world_def)
  have 2: "select_transcript (sample_tracks True True) =
      ([FindManuallyCreated [py ''en'']], Inr (plain_track sample_entries))"
    by (simp add: select_transcript_def sample_tracks_def)
  have 3: "fetch (plain_track sample_entries) = Inr sample_entries"
    by (simp add: plain_track_def)
  have 4: "join (py '' '') (map text_of sample_entries) = py ''Hello world !''"
    by (simp add: sample_entries_def)
  from 0 1 2 3 have "fetch_transcript ?w (py ''dQw4w9WgXcQ'') =
     (ListTranscripts (py ''dQw4w9WgXcQ'') # [FindManuallyCreated [py ''en'']] @ [Fetch],
      Return (join (py '' '') (map text_of sample_entries)))"
    using fetch_transcript_join[of ?w "py ''dQw4w9WgXcQ''" "sample_tracks True True"
        "[FindManuallyCreated [py ''en'']]" "plain_track sample_entries" sample_entries]
    by blast
  then have r: "fetch_transcript ?w (py ''dQw4w9WgXcQ'') =
     ([ListTranscripts (py ''dQw4w9WgXcQ''), FindManuallyCreated [py ''en''], Fetch],
      Return (py ''Hello world !''))"
    unfolding 4 by simp
  then have "\<exists>tlist t entries. yt_list ?w (py ''dQw4w9WgXcQ'') = Inr tlist \<and>
      snd (select_transcript tlist) = Inr t \<and> fetch t = Inr entries \<and>
      py ''Hello world !'' = join (py '' '') (map text_of entries)"
    using fetch_transcript_join[of ?w "py ''dQw4w9WgXcQ''" _ _ _ _
        "[ListTranscripts (py ''dQw4w9WgXcQ''), FindManuallyCreated [py ''en''], Fetch]"
        "py ''Hello world !''"]
    by blast
  with r show ?thesis by (intro conjI)
qed

section \<open>Note Publisher: the path of the note\<close>

lemma re_sub_class_map:
  "re_sub_class cls [r] s = map (\<lambda>c. if cls c then r else c) s"
  by (induction s) auto

lemma strip_split:
  "\<exists>l r. s = l @ strip s @ r \<and> list_all is_space l \<and> list_all is_space r"
proof -
  let ?m = "dropWhile is_space s"
  have 1: "s = takeWhile is_space s @ ?m" by simp
  have "rev (takeWhile is_space (rev ?m) @ dropWhile is_space (rev ?m)) = rev (rev ?m)"
    by (simp only: takeWhile_dropWhile_id)
  then have 2: "strip s @ rev (takeWhile is_space (rev ?m)) = ?m"
    by (simp only: rev_append rev_rev_ident strip_def)
  have 3: "list_all is_space (takeWhile is_space s)"
    by (simp add: list_all_iff) (meson set_takeWhileD)
  have 4: "list_all is_space (rev (takeWhile is_space (rev ?m)))"
    by (simp add: list_all_iff) (meson set_takeWhileD)
  have "s = takeWhile is_space s @ strip s @ rev (takeWhile is_space (rev ?m))"
    unfolding 2 by (rule 1)
  with 3 4 show ?thesis by blast
qed

lemma last_dropWhile: "dropWhile P xs \<noteq> [] \<Longrightarrow> last (dropWhile P xs) = last xs"
  by (induction xs) (auto split: if_splits)

lemma strip_ends:
  assumes "strip s \<noteq> []"
  shows "\<not> is_space (hd (strip s)) \<and> \<not> is_space (last (strip s))"
proof -
  let ?m = "dropWhile is_space s"
  let ?k = "dropWhile is_space (rev ?m)"
  from assms have k: "?k \<noteq> []" by (simp add: strip_def)
  have m: "?m \<noteq> []"
  proof
    assume e: "?m = []"
    show False using k unfolding e by simp
  qed
  have "last (strip s) = hd ?k" using k by (simp add: strip_def last_rev)
  moreover have "\<not> is_space (hd ?k)" using k by (rule hd_dropWhile)
  moreover have "hd (strip s) = last ?k" using k by (simp add: strip_def hd_rev)
  moreover have "last ?k = last (rev ?m)" using k by (rule last_dropWhile)
  moreover have "last (rev ?m) = hd ?m" using m by (simp add: last_rev)
  moreover have "\<not> is_space (hd ?m)" using m by (rule hd_dropWhile)
  ultimately show ?thesis by simp
qed

lemma send_to_obsidian_request:
  assumes "environ w (py ''OBSIDIAN_REST_API_KEY'') = Some k" and "k \<noteq> []"
    and "int_of_str w (environ_get w (py ''OBSIDIAN_REST_PORT'') (py ''27124'')) = Inr port"
    and "quote w (note_path (folder_of w) title) = Inr quoted"
    and "encode_utf8 w (note_content vid summary) = Inr body"
  shows "send_to_obsidian w (PStr title) vid summary =
     upload w (put_request w port quoted body k) (note_path (folder_of w) title)"
  using assms by (simp add: send_to_obsidian_def)

lemma upload_first_event: "\<exists>evs. fst (upload w req path) = UrlOpen req # evs"
  by (auto simp: upload_def split: sum.splits)

text \<open>
  Claim C8. The title is sanitized by replacing each backslash, slash, colon, asterisk,
  question mark, double quote, angle bracket and vertical bar by a hyphen and then
  removing the white space around the result; the path of the note is the folder, a
  slash, the sanitized title and \<open>.md\<close>, and the upload goes to the quoted form of that
  path. The title \<open>My: Video? <Test>\<close> gives the file name \<open>My- Video- -Test-.md\<close>.
\<close>

theorem safe_title_spec:
  "safe_title title = strip (map (\<lambda>c. if forbidden c then of_char CHR ''-'' else c) title) \<and>
   (forbidden c \<longleftrightarrow>
      c \<in> of_char ` {CHR 0x5C, CHR ''/'', CHR '':'', CHR ''*'', CHR ''?'', CHR 0x22, CHR ''<'',
                     CHR ''>'', CHR ''|''}) \<and>
   (\<exists>l r. map (\<lambda>c. if forbidden c then of_char CHR ''-'' else c) title = l @ safe_title title @ r \<and>
      list_all is_space l \<and> list_all is_space r) \<and>
   (safe_title title \<noteq> [] \<longrightarrow>
      \<not> is_space (hd (safe_title title)) \<and> \<not> is_space (last (safe_title title))) \<and>
   note_path folder title = folder @ py ''/'' @ safe_title title @ py ''.md'' \<and>
   (environ w (py ''OBSIDIAN_REST_API_KEY'') = Some k \<and> k \<noteq> [] \<and>
    int_of_str w (environ_get w (py ''OBSIDIAN_REST_PORT'') (py ''27124'')) = Inr port \<and>
    quote w (note_path (folder_of w) title) = Inr quoted \<and>
    encode_utf8 w (note_content vid summary) = Inr body \<longrightarrow>
      (\<exists>evs. fst (send_to_obsidian w (PStr title) vid summary) =
         UrlOpen (put_request w port quoted body k) # evs) \<and>
      url (put_request w port quoted body k) =
        py ''https://127.0.0.1:'' @ str_of_int w port @ py ''/vault/'' @ quoted) \<and>
   safe_title (py ''My: Video? <Test>'') @ py ''.md'' = py ''My- Video- -Test-.md''"
proof -
  have a: "safe_title title = strip (map (\<lambda>c. if forbidden c then of_char CHR ''-'' else c) title)"
    by (simp only: safe_title_def list.map re_sub_class_map)
  have b: "forbidden c \<longleftrightarrow>
      c \<in> of_char ` {CHR 0x5C, CHR ''/'', CHR '':'', CHR ''*'', CHR ''?'', CHR 0x22, CHR ''<'',
                     CHR ''>'', CHR ''|''}"
    by (simp add: forbidden_def)
  have c: "\<exists>l r. map (\<lambda>c. if forbidden c then of_char CHR ''-'' else c) title = l @ safe_title title @ r \<and>
      list_all is_space l \<and> list_all is_space r"
    unfolding a by (rule strip_split)
  have d: "\<not> is_space (hd (safe_title title)) \<and> \<not> is_space (last (safe_title title))"
    if "safe_title title \<noteq> []"
    using that unfolding a by (rule strip_ends)
  have e: "note_path folder title = folder @ py ''/'' @ safe_title title @ py ''.md''"
    by (simp add: note_path_def)
  have f: "(\<exists>evs. fst (send_to_obsidian w (PStr title) vid summary) =
         UrlOpen (put_request w port quoted body k) # evs) \<and>
      url (put_request w port quoted body k) =
        py ''https://127.0.0.1:'' @ str_of_int w port @ py ''/vault/'' @ quoted"
    if "environ w (py ''OBSIDIAN_REST_API_KEY'') = Some k" "k \<noteq> []"
      "int_of_str w (environ_get w (py ''OBSIDIAN_REST_PORT'') (py ''27124'')) = Inr port"
      "quote w (note_path (folder_of w) title) = Inr quoted"
      "encode_utf8 w (note_content vid summary) = Inr body"
  proof
    show "\<exists>evs. fst (send_to_obsidian w (PStr title) vid summary) =
         UrlOpen (put_request w port quoted body k) # evs"
      unfolding send_to_obsidian_request[OF that] by (rule upload_first_event)
    show "url (put_request w port quoted body k) =
        py ''https://127.0.0.1:'' @ str_of_int w port @ py ''/vault/'' @ quoted"
      by (simp add: put_request_def)
  qed
  have g: "safe_title (py ''My: Video? <Test>'') @ py ''.md'' = py ''My- Video- -Test-.md''"
    by (simp add: safe_title_def strip_def forbidden_def is_space_def)
  from a b c d e f g show ?thesis by blast
qed

lemma sample_publisher:
  "environ (sample_world with_key meta store tlist) (py ''OBSIDIAN_REST_API_KEY'') = Some (py ''secret'')"
  "int_of_str (sample_world with_key meta store tlist)
     (environ_get (sample_world with_key meta store tlist) (py ''OBSIDIAN_REST_PORT'') (py ''27124'')) =
     Inr 27124"
  "folder_of (sample_world with_key meta store tlist) = py ''transcripts/videos''"
  "encode_utf8 (sample_world with_key meta store tlist) content = Inr content"
  "urlopen (sample_world with_key meta store tlist)
     (put_request (sample_world with_key meta store tlist) port quoted body key) = store"
  "str_of_int (sample_world with_key meta store tlist) 27124 = py ''27124''"
  by (simp_all add: sample_world_def with_key_def environ_get_def folder_of_def put_request_def
      decimal.simps)

lemma sample_note_path:
  "note_path (py ''transcripts/videos'') sample_title = py ''transcripts/videos/My- Video- -Test-.md''"
  "quote (sample_world env meta store tlist) (py ''transcripts/videos/My- Video- -Test-.md'') =
     Inr (py ''transcripts/videos/My-%20Video-%20-Test-.md'')"
  by (simp_all add: note_path_def sample_title_def safe_title_def strip_def forbidden_def
      is_space_def sample_world_def)

theorem safe_title_spec_witness:
  "safe_title (py ''  a/b: c  '') = py ''a-b- c'' \<and>
   \<not> is_space (hd (safe_title (py ''  a/b: c  ''))) \<and>
   \<not> is_space (last (safe_title (py ''  a/b: c  ''))) \<and>
   note_path (py ''transcripts/videos'') sample_title = py ''transcripts/videos/My- Video- -Test-.md'' \<and>
   (\<exists>evs. fst (send_to_obsidian
       (sample_world with_key (answer 200 (py ''oembed'')) (answer 204 []) (sample_tracks True True))
       (PStr sample_title) (py ''dQw4w9WgXcQ'') (py ''TLDR'')) =
     UrlOpen \<lparr>http_method = py ''PUT'',
       url = py ''https://127.0.0.1:27124/vault/transcripts/videos/My-%20Video-%20-Test-.md'',
       headers = [(py ''Authorization'', py ''Bearer secret''),
                  (py ''Content-Type'', py ''text/markdown'')],
       data = Some (note_content (py ''dQw4w9WgXcQ'') (py ''TLDR''))\<rparr> # evs)"
proof -
  let ?w = "sample_world with_key (answer 200 (py ''oembed'')) (answer 204 []) (sample_tracks True True)"
  let ?q = "py ''transcripts/videos/My-%20Video-%20-Test-.md''"
  let ?c = "note_content (py ''dQw4w9WgXcQ'') (py ''TLDR'')"
  have s: "safe_title (py ''  a/b: c  '') = py ''a-b- c''"
    by (simp add: safe_title_def strip_def forbidden_def is_space_def)
  then have "safe_title (py ''  a/b: c  '') \<noteq> []" by simp
  then have ends: "\<not> is_space (hd (safe_title (py ''  a/b: c  ''))) \<and>
     \<not> is_space (last (safe_title (py ''  a/b: c  '')))"
    using safe_title_spec[of "py ''  a/b: c  ''"] by blast
  have q: "quote ?w (note_path (folder_of ?w) sample_title) = Inr ?q"
    unfolding sample_publisher(3) sample_note_path(1) by (rule sample_note_path(2))
  have k: "py ''secret'' \<noteq> []" by simp
  have "(\<exists>evs. fst (send_to_obsidian ?w (PStr sample_title) (py ''dQw4w9WgXcQ'') (py ''TLDR'')) =
         UrlOpen (put_request ?w 27124 ?q ?c (py ''secret'')) # evs) \<and>
      url (put_request ?w 27124 ?q ?c (py ''secret'')) =
        py ''https://127.0.0.1:'' @ str_of_int ?w 27124 @ py ''/vault/'' @ ?q"
    by (rule safe_title_spec[THEN conjunct2, THEN conjunct2, THEN conjunct2, THEN conjunct2,
          THEN conjunct2, THEN conjunct1, rule_format,
          OF conjI[OF sample_publisher(1) conjI[OF k conjI[OF sample_publisher(2)
            conjI[OF q sample_publisher(4)]]]]])
  then have u: "\<exists>evs. fst (send_to_obsidian ?w (PStr sample_title) (py ''dQw4w9WgXcQ'') (py ''TLDR'')) =
     UrlOpen \<lparr>http_method = py ''PUT'',
       url = py ''https://127.0.0.1:27124/vault/transcripts/videos/My-%20Video-%20-Test-.md'',
       headers = [(py ''Authorization'', py ''Bearer secret''),
                  (py ''Content-Type'', py ''text/markdown'')],
       data = Some ?c\<rparr> # evs"
    unfolding put_request_def sample_publisher(6) by simp
  from s ends[THEN conjunct1] ends[THEN conjunct2] sample_note_path(1) u
  show ?thesis by (intro conjI)
qed

section \<open>Transcript Fetcher: the choice of the track\<close>

text \<open>
  Claim C3. The track is chosen by three lookups in a fixed order. The manually created
  track for the language code \<open>en\<close> is taken when its lookup succeeds, and no other
  lookup is made. Only when it fails is the generated track for \<open>en\<close> looked up and
  taken. Only when both fail is the first track of the enumeration taken and its
  translation into \<open>en\<close> requested. The entries are fetched from the chosen track.
\<close>

theorem select_transcript_order:
  "(find_manually_created_transcript tlist [py ''en''] = Inr t \<longrightarrow>
      select_transcript tlist = ([FindManuallyCreated [py ''en'']], Inr t)) \<and>
   (find_manually_created_transcript tlist [py ''en''] = Inl e1 \<and>
    find_generated_transcript tlist [py ''en''] = Inr t \<longrightarrow>
      select_transcript tlist =
        ([FindManuallyCreated [py ''en''], FindGenerated [py ''en'']], Inr t)) \<and>
   (find_manually_created_transcript tlist [py ''en''] = Inl e1 \<and>
    find_generated_transcript tlist [py ''en''] = Inl e2 \<and> tracks tlist = t # rest \<longrightarrow>
      select_transcript tlist =
        ([FindManuallyCreated [py ''en''], FindGenerated [py ''en''], NextTrack,
          Translate (py ''en'')],
         translate t (py ''en''))) \<and>
   (new_transcript_api w = Inr () \<and> yt_list w vid = Inr tlist \<and>
    select_transcript tlist = (evs, Inr t) \<longrightarrow>
      fetch_transcript w vid =
        (case fetch t of
           Inl e \<Rightarrow> transcript_error (ListTranscripts vid # evs @ [Fetch]) e
         | Inr entries \<Rightarrow>
             (ListTranscripts vid # evs @ [Fetch], Return (join (py '' '') (map text_of entries)))))"
  by (simp add: select_transcript_def fetch_transcript_def)

theorem select_transcript_order_witness:
  "select_transcript (sample_tracks True True) =
     ([FindManuallyCreated [py ''en'']], Inr (plain_track sample_entries)) \<and>
   select_transcript (sample_tracks False True) =
     ([FindManuallyCreated [py ''en''], FindGenerated [py ''en'']],
      Inr (plain_track (one_entry (py ''generated'')))) \<and>
   select_transcript (sample_tracks False False) =
     ([FindManuallyCreated [py ''en''], FindGenerated [py ''en''], NextTrack, Translate (py ''en'')],
      Inr (plain_track (one_entry (py ''translated'')))) \<and>
   fetch_transcript
     (sample_world with_key (answer 200 (py ''oembed'')) (answer 204 []) (sample_tracks False False))
     (py ''dQw4w9WgXcQ'') =
   ([ListTranscripts (py ''dQw4w9WgXcQ''), FindManuallyCreated [py ''en''],
     FindGenerated [py ''en''], NextTrack, Translate (py ''en''), Fetch],
    Return (py ''translated''))"
proof -
  let ?none = "Exn (py ''no transcript found'')"
  let ?w = "sample_world with_key (answer 200 (py ''oembed'')) (answer 204 []) (sample_tracks False False)"
  have m1: "find_manually_created_transcript (sample_tracks True True) [py ''en''] =
      Inr (plain_track sample_entries)"
    by (simp add: sample_tracks_def)
  have a: "select_transcript (sample_tracks True True) =
     ([FindManuallyCreated [py ''en'']], Inr (plain_track sample_entries))"
    using m1 select_transcript_order[of "sample_tracks True True" "plain_track sample_entries"]
    by blast
  have m2: "find_manually_created_transcript (sample_tracks False True) [py ''en''] = Inl ?none"
    "find_generated_transcript (sample_tracks False True) [py ''en''] =
       Inr (plain_track (one_entry (py ''generated'')))"
    by (simp_all add: sample_tracks_def)
  have b: "select_transcript (sample_tracks False True) =
     ([FindManuallyCreated [py ''en''], FindGenerated [py ''en'']],
      Inr (plain_track (one_entry (py ''generated''))))"
    using m2 select_transcript_order[of "sample_tracks False True"
        "plain_track (one_entry (py ''generated''))" ?none]
    by blast
  have m3: "find_manually_created_transcript (sample_tracks False False) [py ''en''] = Inl ?none"
    "find_generated_transcript (sample_tracks False False) [py ''en''] = Inl ?none"
    "tracks (sample_tracks False False) =
       foreign_track (one_entry (py ''Hallo'')) (one_entry (py ''translated'')) # []"
    by (simp_all add: sample_tracks_def)
  have tr: "translate (foreign_track (one_entry (py ''Hallo'')) (one_entry (py ''translated'')))
       (py ''en'') = Inr (plain_track (one_entry (py ''translated'')))"
    by (simp add: foreign_track_def)
  have c: "select_transcript (sample_tracks False False) =
     ([FindManuallyCreated [py ''en''], FindGenerated [py ''en''], NextTrack, Translate (py ''en'')],
      Inr (plain_track (one_entry (py ''translated''))))"
    using m3 select_transcript_order[of "sample_tracks False False"
        "foreign_track (one_entry (py ''Hallo'')) (one_entry (py ''translated''))" ?none ?none "[]"]
    unfolding tr by blast
  have y: "new_transcript_api ?w = Inr ()"
    "yt_list ?w (py ''dQw4w9WgXcQ'') = Inr (sample_tracks False False)"
    by (simp_all add: sample_world_def)
  have "fetch_transcript ?w (py ''dQw4w9WgXcQ'') =
        (case fetch (plain_track (one_entry (py ''translated''))) of
           Inl e \<Rightarrow> transcript_error (ListTranscripts (py ''dQw4w9WgXcQ'') #
              [FindManuallyCreated [py ''en''], FindGenerated [py ''en''], NextTrack,
               Translate (py ''en'')] @ [Fetch]) e
         | Inr entries \<Rightarrow>
             (ListTranscripts (py ''dQw4w9WgXcQ'') #
              [FindManuallyCreated [py ''en''], FindGenerated [py ''en''], NextTrack,
               Translate (py ''en'')] @ [Fetch], Return (join (py '' '') (map text_of entries))))"
    using y c select_transcript_order[of "sample_tracks False False"
        "plain_track (one_entry (py ''translated''))" _ _ _ ?w "py ''dQw4w9WgXcQ''"
        "[FindManuallyCreated [py ''en''], FindGenerated [py ''en''], NextTrack, Translate (py ''en'')]"]
    by blast
  then have d: "fetch_transcript ?w (py ''dQw4w9WgXcQ'') =
   ([ListTranscripts (py ''dQw4w9WgXcQ''), FindManuallyCreated [py ''en''],
     FindGenerated [py ''en''], NextTrack, Translate (py ''en''), Fetch],
    Return (py ''translated''))"
    by (simp add: plain_track_def one_entry_def)
  from a b c d show ?thesis by blast
qed

section \<open>Note Publisher: the credential\<close>

text \<open>
  Claim C5. With publishing enabled and \<open>OBSIDIAN_REST_API_KEY\<close> absent from the
  environment, the publisher prints a diagnostic on the error stream and exits with
  status 1, and it opens no URL: the check comes before the request.
\<close>

theorem missing_credential:
  "environ w (py ''OBSIDIAN_REST_API_KEY'') = None \<longrightarrow>
     send_to_obsidian w title vid summary =
       ([Stderr (py ''Error: OBSIDIAN_REST_API_KEY environment variable not set.'')], SysExit 1) \<and>
     publish w False title vid summary = send_to_obsidian w title vid summary \<and>
     exit_status (snd (send_to_obsidian w title vid summary)) \<noteq> 0 \<and>
     (\<forall>req. UrlOpen req \<notin> set (fst (send_to_obsidian w title vid summary)))"
  by (simp add: send_to_obsidian_def missing_key_def publish_def)

theorem missing_credential_witness:
  "environ (sample_world Map.empty (answer 200 (py ''oembed'')) (answer 204 []) (sample_tracks True True))
     (py ''OBSIDIAN_REST_API_KEY'') = None \<and>
   publish (sample_world Map.empty (answer 200 (py ''oembed'')) (answer 204 []) (sample_tracks True True))
     False (PStr sample_title) (py ''dQw4w9WgXcQ'') (py ''TLDR'') =
     ([Stderr (py ''Error: OBSIDIAN_REST_API_KEY environment variable not set.'')], SysExit 1)"
proof -
  let ?w = "sample_world Map.empty (answer 200 (py ''oembed'')) (answer 204 []) (sample_tracks True True)"
  have e: "environ ?w (py ''OBSIDIAN_REST_API_KEY'') = None"
    by (simp add: sample_world_def)
  with missing_credential[of ?w "PStr sample_title" "py ''dQw4w9WgXcQ''" "py ''TLDR''"]
  have "publish ?w False (PStr sample_title) (py ''dQw4w9WgXcQ'') (py ''TLDR'') =
     ([Stderr (py ''Error: OBSIDIAN_REST_API_KEY environment variable not set.'')], SysExit 1)"
    by simp
  with e show ?thesis by blast
qed

section \<open>Note Publisher: the outcome of the upload\<close>






section \<open>Metadata Fetcher: the fallback\<close>






section \<open>Orchestrator: the summary and the publisher\<close>

lemma and_then_Return:
  "m = (evs, Return x) \<Longrightarrow> and_then m f = (evs @ fst (f x), snd (f x))"
  by simp

text \<open>
  Claim C9. In every run in which the stages up to the Summarizer succeed, \<open>main\<close>
  writes the summary on standard output before anything of the Note Publisher happens:
  the events of the publisher follow the line of the summary. A failure of the
  publisher therefore leaves the summary printed, and the exit status of the run is the
  one of the publisher.
\<close>

theorem summary_before_publish:
  "extract_video_id u = (e0, Return vid) \<and> fetch_video_title w vid = (e1, Return title) \<and>
   fetch_transcript w vid = (e2, Return tr) \<and> summarize w tr = (e3, Return summary) \<longrightarrow>
     main w u no_obsidian =
       (e0 @ Stderr (py ''Fetching transcript for video: '' @ vid @ py '' ...'') # e1 @
        Stderr (py ''Video title: '' @ format_val w title) # e2 @
        Stderr (py ''Transcript fetched ('' @ str_of_int w (int (length tr)) @
                py '' chars). Summarizing ...'') # e3 @
        Stdout summary # fst (publish w no_obsidian title vid summary),
        snd (publish w no_obsidian title vid summary)) \<and>
     Stdout summary \<in> set (fst (main w u no_obsidian)) \<and>
     exit_status (snd (main w u no_obsidian)) =
       exit_status (snd (publish w no_obsidian title vid summary))"
proof (intro impI, elim conjE)
  assume a: "extract_video_id u = (e0, Return vid)" "fetch_video_title w vid = (e1, Return title)"
    "fetch_transcript w vid = (e2, Return tr)" "summarize w tr = (e3, Return summary)"
  have m: "main w u no_obsidian =
       (e0 @ Stderr (py ''Fetching transcript for video: '' @ vid @ py '' ...'') # e1 @
        Stderr (py ''Video title: '' @ format_val w title) # e2 @
        Stderr (py ''Transcript fetched ('' @ str_of_int w (int (length tr)) @
                py '' chars). Summarizing ...'') # e3 @
        Stdout summary # fst (publish w no_obsidian title vid summary),
        snd (publish w no_obsidian title vid summary))"
    by (simp add: main_def after_title_def a print_err_def print_out_def)
  show "main w u no_obsidian =
       (e0 @ Stderr (py ''Fetching transcript for video: '' @ vid @ py '' ...'') # e1 @
        Stderr (py ''Video title: '' @ format_val w title) # e2 @
        Stderr (py ''Transcript fetched ('' @ str_of_int w (int (length tr)) @
                py '' chars). Summarizing ...'') # e3 @
        Stdout summary # fst (publish w no_obsidian title vid summary),
        snd (publish w no_obsidian title vid summary)) \<and>
     Stdout summary \<in> set (fst (main w u no_obsidian)) \<and>
     exit_status (snd (main w u no_obsidian)) =
       exit_status (snd (publish w no_obsidian title vid summary))"
    unfolding m by simp
qed

theorem summary_before_publish_witness:
  "main
     (sample_world with_key (answer 200 (py ''oembed'')) (Inl (Exn (py ''Connection refused'')))
        (sample_tracks True True))
     (py ''https://youtu.be/dQw4w9WgXcQ'') False =
   ([Stderr (py ''Fetching transcript for video: dQw4w9WgXcQ ...''),
     UrlOpen (get_request (oembed_url (py ''dQw4w9WgXcQ''))),
     Stderr (py ''Video title: My: Video? <Test>''),
     ListTranscripts (py ''dQw4w9WgXcQ''), FindManuallyCreated [py ''en''], Fetch,
     Stderr (py ''Transcript fetched (13 chars). Summarizing ...''),
     MessagesCreate model_name 1024 (prompt (py ''Hello world !'')),
     Stdout (py ''TLDR: a greeting.''),
     UrlOpen (put_request
        (sample_world with_key (answer 200 (py ''oembed'')) (Inl (Exn (py ''Connection refused'')))
           (sample_tracks True True))
        27124 (py ''transcripts/videos/My-%20Video-%20-Test-.md'')
        (note_content (py ''dQw4w9WgXcQ'') (py ''TLDR: a greeting.'')) (py ''secret'')),
     Stderr (py ''Error sending to Obsidian: Connection refused'')],
    SysExit 1)"
proof -
  let ?w = "sample_world with_key (answer 200 (py ''oembed'')) (Inl (Exn (py ''Connection refused'')))
        (sample_tracks True True)"
  let ?v = "py ''dQw4w9WgXcQ''"
  have x: "extract_video_id (py ''https://youtu.be/dQw4w9WgXcQ'') = ([], Return ?v)"
    by (simp add: extract_video_id_def patterns_def search_re.simps id_char_def)
  have t: "fetch_video_title ?w ?v =
      ([UrlOpen (get_request (oembed_url ?v))], Return (PStr sample_title))"
    by (simp add: fetch_video_title_def oembed_title_def sample_world_def get_request_def answer_def)
  have f: "fetch_transcript ?w ?v =
      ([ListTranscripts ?v, FindManuallyCreated [py ''en''], Fetch], Return (py ''Hello world !''))"
    by (simp add: fetch_transcript_def select_transcript_def sample_world_def sample_tracks_def
        plain_track_def sample_entries_def)
  have s: "summarize ?w (py ''Hello world !'') =
      ([MessagesCreate model_name 1024 (prompt (py ''Hello world !''))], Return (py ''TLDR: a greeting.''))"
    by (simp add: summarize_def truncate_transcript_def max_chars_def sample_world_def)
  have p: "publish ?w False (PStr sample_title) ?v (py ''TLDR: a greeting.'') =
     ([UrlOpen (put_request ?w 27124 (py ''transcripts/videos/My-%20Video-%20-Test-.md'')
        (note_content ?v (py ''TLDR: a greeting.'')) (py ''secret'')),
       Stderr (py ''Error sending to Obsidian: Connection refused'')], SysExit 1)"
    by (simp add: publish_def send_to_obsidian_def sample_world_def with_key_def environ_get_def
        folder_of_def note_path_def sample_title_def safe_title_def strip_def forbidden_def
        is_space_def upload_def put_request_def)
  have fmt: "format_val ?w (PStr sample_title) = py ''My: Video? <Test>''"
    by (simp add: sample_title_def)
  have n: "str_of_int ?w (int (length (py ''Hello world !''))) = py ''13''"
    by (simp add: sample_world_def decimal.simps)
  from x t f s have "main ?w (py ''https://youtu.be/dQw4w9WgXcQ'') False =
       ([] @ Stderr (py ''Fetching transcript for video: '' @ ?v @ py '' ...'') #
        [UrlOpen (get_request (oembed_url ?v))] @
        Stderr (py ''Video title: '' @ format_val ?w (PStr sample_title)) #
        [ListTranscripts ?v, FindManuallyCreated [py ''en''], Fetch] @
        Stderr (py ''Transcript fetched ('' @ str_of_int ?w (int (length (py ''Hello world !''))) @
                py '' chars). Summarizing ...'') #
        [MessagesCreate model_name 1024 (prompt (py ''Hello world !''))] @
        Stdout (py ''TLDR: a greeting.'') #
        fst (publish ?w False (PStr sample_title) ?v (py ''TLDR: a greeting.'')),
        snd (publish ?w False (PStr sample_title) ?v (py ''TLDR: a greeting.'')))"
    using summary_before_publish[of "py ''https://youtu.be/dQw4w9WgXcQ''" "[]" ?v ?w
        "[UrlOpen (get_request (oembed_url ?v))]" "PStr sample_title"
        "[ListTranscripts ?v, FindManuallyCreated [py ''en''], Fetch]" "py ''Hello world !''"
        "[MessagesCreate model_name 1024 (prompt (py ''Hello world !''))]" "py ''TLDR: a greeting.''"
        False]
    by blast
  then show ?thesis unfolding p fmt n by simp
qed

section \<open>Identifier Resolver: patterns anywhere in the input\<close>

lemma dotstar_None:
  "match_here full (DotStar # ts) s = None \<longleftrightarrow>
     (\<forall>j\<le>length s. newline \<notin> set (take j s) \<longrightarrow> match_here full ts (drop j s) = None)"
proof (induction s)
  case Nil
  show ?case by simp
next
  case (Cons x xs)
  have split: "(\<forall>j\<le>length (x # xs). newline \<notin> set (take j (x # xs)) \<longrightarrow>
                  match_here full ts (drop j (x # xs)) = None) \<longleftrightarrow>
        match_here full ts (x # xs) = None \<and>
        (x \<noteq> newline \<longrightarrow> (\<forall>j\<le>length xs. newline \<notin> set (take j xs) \<longrightarrow>
                  match_here full ts (drop j xs) = None))" (is "?L \<longleftrightarrow> ?R")
  proof
    assume l: ?L
    have "match_here full ts (x # xs) = None" using l[rule_format, of 0] by simp
    moreover have "match_here full ts (drop j xs) = None"
      if "x \<noteq> newline" "j \<le> length xs" "newline \<notin> set (take j xs)" for j
      using l[rule_format, of "Suc j"] that by simp
    ultimately show ?R by blast
  next
    assume r: ?R
    show ?L
    proof (intro allI impI)
      fix j assume "j \<le> length (x # xs)" "newline \<notin> set (take j (x # xs))"
      then show "match_here full ts (drop j (x # xs)) = None"
        using r by (cases j) auto
    qed
  qed
  show ?case unfolding split using Cons by (auto split: option.splits)
qed

lemma dotstar_Some:
  assumes "k \<le> length s" and "newline \<notin> set (take k s)"
    and "match_here full ts (drop k s) = Some gs"
    and "\<forall>j. k < j \<and> j \<le> length s \<and> newline \<notin> set (take j s) \<longrightarrow>
           match_here full ts (drop j s) = None"
  shows "match_here full (DotStar # ts) s = Some gs"
  using assms
proof (induction s arbitrary: k)
  case Nil
  then show ?case by simp
next
  case (Cons x xs)
  show ?case
  proof (cases k)
    case 0
    with Cons.prems have here: "match_here full ts (x # xs) = Some gs" by simp
    show ?thesis
    proof (cases "x = newline")
      case True
      with here show ?thesis by simp
    next
      case False
      have "match_here full ts (drop j xs) = None"
        if "j \<le> length xs" "newline \<notin> set (take j xs)" for j
        using Cons.prems(4)[rule_format, of "Suc j"] that 0 False by simp
      then have "match_here full (DotStar # ts) xs = None"
        unfolding dotstar_None by blast
      with here False show ?thesis by simp
    qed
  next
    case (Suc k')
    with Cons.prems have x: "x \<noteq> newline" and k': "k' \<le> length xs"
      "newline \<notin> set (take k' xs)" "match_here full ts (drop k' xs) = Some gs"
      by auto
    have "match_here full ts (drop j xs) = None"
      if "k' < j \<and> j \<le> length xs \<and> newline \<notin> set (take j xs)" for j
      using Cons.prems(4)[rule_format, of "Suc j"] that Suc x by simp
    then have "match_here full (DotStar # ts) xs = Some gs"
      using Cons.IH[OF k'] by blast
    with x show ?thesis by simp
  qed
qed

lemma rigid_length:
  "denotes ts w gs \<Longrightarrow> DotStar \<notin> set ts \<Longrightarrow> length w = width ts"
  by (induction rule: denotes.induct) auto

lemma rigid_match:
  "denotes ts w gs \<Longrightarrow> DotStar \<notin> set ts \<Longrightarrow> match_here False ts (w @ r) = Some gs"
  by (induction rule: denotes.induct) auto

lemma match_here_longest:
  assumes "denotes ts w gs" and "length (filter ((=) DotStar) ts) \<le> 1"
    and "\<forall>w' gs' r'. w @ r = w' @ r' \<and> denotes ts w' gs' \<longrightarrow> length w' \<le> length w"
  shows "match_here False ts (w @ r) = Some gs"
  using assms
proof (induction rule: denotes.induct)
  case Empty
  show ?case by simp
next
  case (Char ts w gs c)
  have "length w' \<le> length w" if "w @ r = w' @ r'" "denotes ts w' gs'" for w' gs' r'
  proof -
    have "(c # w) @ r = (c # w') @ r'" using that(1) by simp
    moreover have "denotes (Lit c # ts) (c # w') gs'" using that(2) by (rule denotes.Char)
    ultimately have "length (c # w') \<le> length (c # w)" using Char.prems(2) by blast
    then show ?thesis by simp
  qed
  then have "match_here False ts (w @ r) = Some gs"
    using Char.IH Char.prems(1) by auto
  then show ?case by simp
next
  case (Capture ts w gs g n)
  have "length w' \<le> length w" if "w @ r = w' @ r'" "denotes ts w' gs'" for w' gs' r'
  proof -
    have "(g @ w) @ r = (g @ w') @ r'" using that(1) by simp
    moreover have "denotes (Group n # ts) (g @ w') (g # gs')"
      using that(2) Capture.hyps(2,3) by (rule denotes.Capture)
    ultimately have "length (g @ w') \<le> length (g @ w)" using Capture.prems(2) by blast
    then show ?thesis by simp
  qed
  then have "match_here False ts (w @ r) = Some gs"
    using Capture.IH Capture.prems(1) by auto
  with Capture.hyps(2,3) show ?case by simp
next
  case (Any ts w gs d)
  let ?s = "(d @ w) @ r"
  from Any.prems(1) have rigid: "DotStar \<notin> set ts"
    by (auto simp: filter_empty_conv)
  have 1: "length d \<le> length ?s" by simp
  have 2: "newline \<notin> set (take (length d) ?s)" using Any.hyps(2) by simp
  have 3: "match_here False ts (drop (length d) ?s) = Some gs"
    using rigid_match[OF Any.hyps(1) rigid, of r] by simp
  have 4: "match_here False ts (drop j ?s) = None"
    if j: "length d < j \<and> j \<le> length ?s \<and> newline \<notin> set (take j ?s)" for j
  proof (rule ccontr)
    assume "match_here False ts (drop j ?s) \<noteq> None"
    then obtain gs' where "match_here False ts (drop j ?s) = Some gs'" by blast
    from match_here_sound[OF this] obtain w' r'
      where w': "drop j ?s = w' @ r'" "denotes ts w' gs'" by blast
    have nl: "newline \<notin> set (take j ?s)" using j by blast
    have "denotes (DotStar # ts) (take j ?s @ w') gs'"
      using w'(2) nl by (rule denotes.Any)
    moreover have "take j ?s @ drop j ?s = ?s" by (rule append_take_drop_id)
    then have "(d @ w) @ r = (take j ?s @ w') @ r'" unfolding w'(1) by simp
    ultimately have "length (take j ?s @ w') \<le> length (d @ w)"
      using Any.prems(2) by blast
    moreover have "length w' = length w"
      using rigid_length[OF w'(2) rigid] rigid_length[OF Any.hyps(1) rigid] by simp
    moreover have jl: "j \<le> length ?s" using j by blast
    then have "length (take j ?s) = j" by (simp only: length_take min_absorb2)
    moreover have "length d < j" using j by blast
    ultimately show False by simp
  qed
  show ?case by (rule dotstar_Some[OF 1 2 3]) (use 4 in blast)
qed

lemma search_re_leftmost:
  assumes "denotes ts w gs" and "length (filter ((=) DotStar) ts) \<le> 1"
    and first: "\<forall>pre' w' post' gs'. pre @ w @ post = pre' @ w' @ post' \<and> denotes ts w' gs' \<longrightarrow>
       length pre < length pre' \<or> (length pre' = length pre \<and> length w' \<le> length w)"
  shows "search_re ts (pre @ w @ post) = Some gs"
proof -
  let ?s = "pre @ w @ post"
  have longest: "\<forall>w' gs' r'. w @ post = w' @ r' \<and> denotes ts w' gs' \<longrightarrow> length w' \<le> length w"
  proof (intro allI impI, elim conjE)
    fix w' gs' r' assume "w @ post = w' @ r'" "denotes ts w' gs'"
    then have "?s = pre @ w' @ r' \<and> denotes ts w' gs'" by simp
    then have "length pre < length pre \<or> (length pre = length pre \<and> length w' \<le> length w)"
      using first by blast
    then show "length w' \<le> length w" by simp
  qed
  have here: "match_here False ts (drop (length pre) ?s) = Some gs"
    using match_here_longest[OF assms(1,2) longest] by simp
  have before: "match_here False ts (drop j ?s) = None" if j: "j < length pre" for j
  proof (rule ccontr)
    assume "match_here False ts (drop j ?s) \<noteq> None"
    then obtain gs' where "match_here False ts (drop j ?s) = Some gs'" by blast
    from match_here_sound[OF this] obtain w' r'
      where w': "drop j ?s = w' @ r'" "denotes ts w' gs'" by blast
    have "take j ?s @ drop j ?s = ?s" by (rule append_take_drop_id)
    then have "?s = take j ?s @ w' @ r'" unfolding w'(1) by (rule sym)
    then have "length pre < length (take j ?s) \<or>
        (length (take j ?s) = length pre \<and> length w' \<le> length w)"
      using first w'(2) by blast
    moreover have "length (take j ?s) = j" using j by simp
    ultimately show False using j by simp
  qed
  have "length pre \<le> length ?s" by simp
  with here before show ?thesis unfolding search_re_Some by blast
qed

lemma patterns_simple: "i < length patterns \<Longrightarrow> length (filter ((=) DotStar) (patterns ! i)) \<le> 1"
proof -
  have "\<forall>p\<in>set patterns. length (filter ((=) DotStar) p) \<le> 1"
    by (simp add: patterns_def)
  then show "i < length patterns \<Longrightarrow> length (filter ((=) DotStar) (patterns ! i)) \<le> 1"
    using nth_mem by blast
qed

lemma extract_first:
  assumes "i < length patterns" and "search_re (patterns ! i) u = Some [v]"
    and "\<forall>j<i. \<not> occurs (patterns ! j) u"
  shows "extract_video_id u = ([], Return v)"
proof -
  have "\<forall>j<i. search_re (patterns ! j) u = None"
    using assms(3) search_re_occurs by blast
  with assms(1,2) have "first_match patterns u = Some [v]"
    unfolding first_match_Some by blast
  then show ?thesis by (simp add: extract_video_id_def)
qed

text \<open>
  Claim C10, as amended. The five URL patterns are found anywhere in the input. Whenever
  the input contains one of the five shapes, \<open>extract_video_id\<close> does not fail: it
  returns the identifier captured by the earliest pattern of the list that occurs. It
  returns the identifier \<open>v\<close> of a given occurrence when no earlier pattern occurs and
  no occurrence of the same pattern starts further left, or starts at the same place
  and is longer (the \<open>.*\<close> of the watch form is greedy). Only the rule for a bare
  identifier needs the whole input: when no pattern occurs, the function returns exactly
  when the input is an identifier.
\<close>

theorem extract_video_id_unanchored:
  "(i < length patterns \<and> u = pre @ w @ post \<and> denotes (patterns ! i) w [v] \<longrightarrow>
      (\<exists>k v' pre' w' post'. k \<le> i \<and> (\<forall>j<k. \<not> occurs (patterns ! j) u) \<and>
         u = pre' @ w' @ post' \<and> denotes (patterns ! k) w' [v'] \<and> is_video_id v' \<and>
         extract_video_id u = ([], Return v')) \<and>
      ((\<forall>j<i. \<not> occurs (patterns ! j) u) \<and>
       (\<forall>pre' w' post' gs'. u = pre' @ w' @ post' \<and> denotes (patterns ! i) w' gs' \<longrightarrow>
          length pre < length pre' \<or> (length pre' = length pre \<and> length w' \<le> length w)) \<longrightarrow>
       extract_video_id u = ([], Return v))) \<and>
   ((\<forall>p\<in>set patterns. \<not> occurs p u) \<longrightarrow>
      ((\<exists>v. extract_video_id u = ([], Return v)) \<longleftrightarrow> is_video_id u))"
proof -
  have found: "\<exists>k v' pre' w' post'. k \<le> i \<and> (\<forall>j<k. \<not> occurs (patterns ! j) u) \<and>
         u = pre' @ w' @ post' \<and> denotes (patterns ! k) w' [v'] \<and> is_video_id v' \<and>
         extract_video_id u = ([], Return v')"
    if i: "i < length patterns" and u: "u = pre @ w @ post" and d: "denotes (patterns ! i) w [v]"
  proof -
    have occ: "occurs (patterns ! i) u"
      unfolding occurs_def using u d by (intro exI conjI)
    then have "\<not> (\<forall>p\<in>set patterns. \<not> occurs p u)" using i nth_mem by blast
    then have "first_match patterns u \<noteq> None" unfolding first_match_None .
    then obtain gs where "first_match patterns u = Some gs" by blast
    from extract_found[OF this] obtain k v' pre' w' post'
      where k: "k < length patterns" "\<forall>j<k. \<not> occurs (patterns ! j) u"
        "u = pre' @ w' @ post'" "denotes (patterns ! k) w' [v']" "is_video_id v'"
        "extract_video_id u = ([], Return v')"
      by blast
    have "\<not> i < k" using k(2) occ by blast
    then have "k \<le> i" by simp
    with k show ?thesis by blast
  qed
  have exact: "extract_video_id u = ([], Return v)"
    if i: "i < length patterns" and u: "u = pre @ w @ post" and d: "denotes (patterns ! i) w [v]"
      and none: "\<forall>j<i. \<not> occurs (patterns ! j) u"
      and first: "\<forall>pre' w' post' gs'. u = pre' @ w' @ post' \<and> denotes (patterns ! i) w' gs' \<longrightarrow>
          length pre < length pre' \<or> (length pre' = length pre \<and> length w' \<le> length w)"
  proof -
    have "search_re (patterns ! i) (pre @ w @ post) = Some [v]"
      using first unfolding u by (intro search_re_leftmost[OF d patterns_simple[OF i]])
    then have "search_re (patterns ! i) u = Some [v]" unfolding u .
    from extract_first[OF i this none] show ?thesis .
  qed
  have bare: "(\<exists>v. extract_video_id u = ([], Return v)) \<longleftrightarrow> is_video_id u"
    if "\<forall>p\<in>set patterns. \<not> occurs p u"
  proof -
    from that have "first_match patterns u = None" unfolding first_match_None .
    from extract_not_found[OF this] show ?thesis by simp
  qed
  from found exact bare show ?thesis by blast
qed

lemma denotes_eval: "match_here True ts s = Some gs \<Longrightarrow> denotes ts s gs"
  using match_here_sound[of True ts s gs] by auto

lemma all_less_list: "(\<forall>j<n. P j) \<longleftrightarrow> list_all P [0..<n]"
  by (auto simp: list_all_iff)


lemma leftmost_from_matcher:
  assumes none: "\<forall>j<length pre. match_here False ts (drop j u) = None"
    and rigid: "DotStar \<notin> set ts" and d: "denotes ts w gs"
  shows "\<forall>pre' w' post' gs'. u = pre' @ w' @ post' \<and> denotes ts w' gs' \<longrightarrow>
       length pre < length pre' \<or> (length pre' = length pre \<and> length w' \<le> length w)"
proof (intro allI impI, elim conjE)
  fix pre' w' post' gs'
  assume u: "u = pre' @ w' @ post'" and d': "denotes ts w' gs'"
  have "match_here False ts (w' @ post') \<noteq> None" using match_here_complete[OF d'] by simp
  then have m: "match_here False ts (drop (length pre') u) \<noteq> None" unfolding u by simp
  have "\<not> length pre' < length pre"
  proof
    assume "length pre' < length pre"
    with none have "match_here False ts (drop (length pre') u) = None" by (elim allE impE)
    with m show False by (rule notE)
  qed
  moreover have "length w' = length w"
    using rigid_length[OF d' rigid] rigid_length[OF d rigid] by simp
  ultimately show "length pre < length pre' \<or> (length pre' = length pre \<and> length w' \<le> length w)"
    by linarith
qed

lemma whole_is_first:
  "\<forall>pre' w' post' gs'. w = pre' @ w' @ post' \<and> denotes ts w' gs' \<longrightarrow>
       length ([] :: pystr) < length pre' \<or> (length pre' = length ([] :: pystr) \<and> length w' \<le> length w)"
proof (intro allI impI, elim conjE)
  fix pre' :: pystr and w' post' :: pystr and gs' :: "pystr list"
  assume "w = pre' @ w' @ post'"
  then have "length w = length pre' + length w' + length post'" by simp
  then show "length ([] :: pystr) < length pre' \<or> (length pre' = length ([] :: pystr) \<and> length w' \<le> length w)"
    by (cases pre') simp_all
qed

theorem extract_video_id_unanchored_witness:
  "extract_video_id (py ''see https://youtu.be/dQw4w9WgXcQ now'') =
     ([], Return (py ''dQw4w9WgXcQ'')) \<and>
   extract_video_id (py ''youtube.com/watch?v=dQw4w9WgXcQ&v=9bZkp7q19f0'') =
     ([], Return (py ''9bZkp7q19f0'')) \<and>
   \<not> is_video_id (py '' dQw4w9WgXcQ'') \<and>
   \<not> (\<exists>v. extract_video_id (py '' dQw4w9WgXcQ'') = ([], Return v))"
proof -
  let ?u1 = "py ''see https://youtu.be/dQw4w9WgXcQ now''"
  let ?w1 = "py ''youtu.be/dQw4w9WgXcQ''"
  let ?u2 = "py ''youtube.com/watch?v=dQw4w9WgXcQ&v=9bZkp7q19f0''"
  let ?u3 = "py '' dQw4w9WgXcQ''"
  have i0: "0 < length patterns" and i1: "1 < length patterns" by (simp_all add: patterns_def)
  have p0: "patterns ! 0 = map Lit (py ''youtu.be/'') @ [Group 11]" by (simp add: patterns_def)
  have u1: "?u1 = py ''see https://'' @ ?w1 @ py '' now''" by simp
  have d1: "denotes (patterns ! 0) ?w1 [py ''dQw4w9WgXcQ'']"
    by (rule denotes_eval) (simp add: patterns_def id_char_def)
  have r0: "DotStar \<notin> set (patterns ! 0)" by (simp add: patterns_def)
  have n1: "\<forall>j<length (py ''see https://''). match_here False (patterns ! 0) (drop j ?u1) = None"
    unfolding all_less_list p0 by simp
  have f1: "\<forall>pre' w' post' gs'. ?u1 = pre' @ w' @ post' \<and> denotes (patterns ! 0) w' gs' \<longrightarrow>
       length (py ''see https://'') < length pre' \<or>
       (length pre' = length (py ''see https://'') \<and> length w' \<le> length ?w1)"
    by (rule leftmost_from_matcher[OF n1 r0 d1])
  have n0: "\<forall>j<0. \<not> occurs (patterns ! j) ?u1" by simp
  have e1: "extract_video_id ?u1 = ([], Return (py ''dQw4w9WgXcQ''))"
    by (rule extract_video_id_unanchored[THEN conjunct1, rule_format,
          OF conjI[OF i0 conjI[OF u1 d1]], THEN conjunct2, rule_format, OF conjI[OF n0 f1]])
  have u2: "?u2 = [] @ ?u2 @ []" by simp
  have d2: "denotes (patterns ! 1) ?u2 [py ''9bZkp7q19f0'']"
    by (rule denotes_eval) (simp add: patterns_def id_char_def newline_def)
  have n2: "\<forall>j<1. \<not> occurs (patterns ! j) ?u2"
    by (simp add: occurs_eval p0 search_re.simps)
  have e2: "extract_video_id ?u2 = ([], Return (py ''9bZkp7q19f0''))"
    by (rule extract_video_id_unanchored[THEN conjunct1, rule_format,
          OF conjI[OF i1 conjI[OF u2 d2]], THEN conjunct2, rule_format,
          OF conjI[OF n2 whole_is_first]])
  have n3: "\<forall>p\<in>set patterns. \<not> occurs p ?u3"
    by (simp add: patterns_def occurs_eval search_re.simps newline_def)
  have v3: "\<not> is_video_id ?u3" by (simp add: is_video_id_def)
  have "(\<exists>v. extract_video_id ?u3 = ([], Return v)) \<longleftrightarrow> is_video_id ?u3"
    by (rule extract_video_id_unanchored[THEN conjunct2, rule_format, OF n3[rule_format]])
  then have e3: "\<not> (\<exists>v. extract_video_id ?u3 = ([], Return v))"
    using v3 by (simp only: not_False_eq_True)
  from e1 e2 v3 e3 show ?thesis by (intro conjI)
qed

text \<open>
  Two occurrences of the short-link shape: the input contains the shape with the second
  identifier embedded, and the first identifier is returned.
\<close>

theorem extract_video_id_second_link_counterexample:
  "is_video_id (py ''9bZkp7q19f0'') \<and>
   denotes (patterns ! 0) (py ''youtu.be/9bZkp7q19f0'') [py ''9bZkp7q19f0''] \<and>
   py ''youtu.be/dQw4w9WgXcQ youtu.be/9bZkp7q19f0'' =
     py ''youtu.be/dQw4w9WgXcQ '' @ py ''youtu.be/9bZkp7q19f0'' @ [] \<and>
   extract_video_id (py ''youtu.be/dQw4w9WgXcQ youtu.be/9bZkp7q19f0'') =
     ([], Return (py ''dQw4w9WgXcQ'')) \<and>
   py ''dQw4w9WgXcQ'' \<noteq> py ''9bZkp7q19f0''"
proof -
  have a: "is_video_id (py ''9bZkp7q19f0'')" by (simp add: is_video_id_def id_char_def)
  have b: "denotes (patterns ! 0) (py ''youtu.be/9bZkp7q19f0'') [py ''9bZkp7q19f0'']"
    by (rule denotes_eval) (simp add: patterns_def id_char_def)
  have c: "extract_video_id (py ''youtu.be/dQw4w9WgXcQ youtu.be/9bZkp7q19f0'') =
     ([], Return (py ''dQw4w9WgXcQ''))"
    by (simp add: extract_video_id_def patterns_def search_re.simps id_char_def)
  have d: "py ''youtu.be/dQw4w9WgXcQ youtu.be/9bZkp7q19f0'' =
     py ''youtu.be/dQw4w9WgXcQ '' @ py ''youtu.be/9bZkp7q19f0'' @ []" by simp
  have e: "py ''dQw4w9WgXcQ'' \<noteq> py ''9bZkp7q19f0''" by simp
  from a b d c e show ?thesis by (intro conjI)
qed

end
